theory Spec2Isabelle
  imports Complex_Main "HOL-Library.Multiset"
begin

section \<open>Conventions of the embedding\<close>

text \<open>
  The TypeScript sources are embedded shallowly.  A JavaScript string is a sequence of
  UTF-16 code units.  The helpers that are defined on every string and whose result
  depends on more than the Latin-1 range (\<open>btoa\<close>, \<open>generateFractalHash\<close>,
  \<open>calculateEntropy\<close>) take the code units themselves, a list of naturals (a code unit is
  below \<open>65536\<close>; nothing depends on that bound).  The strings the program builds and
  passes on (digests, base64 text, prompts, responses, log messages) are modelled as
  \<^typ>\<open>string\<close>, a list of 8-bit characters: the Latin-1 strings, in which a character is
  one code unit below \<open>256\<close>; \<open>units\<close> gives the code units of such a string.  A
  JavaScript number that holds a count or an index is a \<^typ>\<open>nat\<close>; one that holds an
  entropy or a score is a \<^typ>\<open>real\<close>, so binary64 rounding, NaN and the infinities are
  left out.  A thrown exception is the left summand of a sum type.
\<close>

datatype exn = TypeError | Error string | InvalidCharacterError

definition units :: "string \<Rightarrow> nat list" where
  "units s = map of_char s"

section \<open>Number formatting\<close>

text \<open>\<open>n.toString()\<close> of a non-negative integer: its decimal digits.\<close>

definition digitChar :: "nat \<Rightarrow> char" where
  "digitChar d = ''0123456789'' ! d"

function natToString :: "nat \<Rightarrow> string" where
  "natToString n = (if n < 10 then [digitChar n] else natToString (n div 10) @ [digitChar (n mod 10)])"
  by pat_completeness auto
termination
  by (relation "measure id") auto

declare natToString.simps [simp del]

text \<open>
  \<open>Number.prototype.toFixed(f)\<close> following its ECMAScript definition: the sign is split
  off, the magnitude is scaled by \<open>10^f\<close> and rounded to the nearest integer (the larger one
  on a tie), the digits are left-padded with zeros to \<open>f + 1\<close> places and the point is put
  before the last \<open>f\<close>.  From \<open>10^21\<close> on the method prints \<open>Number::toString\<close>, which
  depends on the binary64 representation: that printer is the parameter \<open>numberToString\<close>.
\<close>

definition toFixed :: "(real \<Rightarrow> string) \<Rightarrow> nat \<Rightarrow> real \<Rightarrow> string" where
  "toFixed numberToString f x =
     (let s = (if x < 0 then ''-'' else '''');
          a = \<bar>x\<bar>
      in if a \<ge> 10 ^ 21 then s @ numberToString a
         else
           let n = nat \<lfloor>a * 10 ^ f + 1 / 2\<rfloor>;
               m = natToString n;
               m' = (if f \<noteq> 0
                     then (let z = replicate (f + 1 - length m) (CHR ''0'') @ m;
                               k = length z
                           in take (k - f) z @ ''.'' @ drop (k - f) z)
                     else m)
           in s @ m')"

section \<open>utils/helpers.ts\<close>

subsection \<open>btoa and generateFractalHash\<close>

text \<open>
  Standard base64 of a byte string, with \<open>=\<close> padding.  Three bytes give four characters
  of the alphabet; a rest of two bytes gives three characters and one pad, a rest of one
  byte two characters and two pads.
\<close>

definition b64Alphabet :: string where
  "b64Alphabet = ''ABCDEFGHIJKLMNOPQRSTUVWXYZabcdefghijklmnopqrstuvwxyz0123456789+/''"

definition b64Char :: "nat \<Rightarrow> char" where
  "b64Char n = b64Alphabet ! (n mod 64)"

fun base64 :: "string \<Rightarrow> string" where
  "base64 [] = []"
| "base64 [a] =
     (let n = of_char a * 65536
      in [b64Char (n div 262144), b64Char (n div 4096), CHR ''='', CHR ''=''])"
| "base64 [a, b] =
     (let n = of_char a * 65536 + of_char b * 256
      in [b64Char (n div 262144), b64Char (n div 4096), b64Char (n div 64), CHR ''=''])"
| "base64 (a # b # c # rest) =
     (let n = of_char a * 65536 + of_char b * 256 + of_char c
      in [b64Char (n div 262144), b64Char (n div 4096), b64Char (n div 64), b64Char n])
     @ base64 rest"

text \<open>
  \<open>btoa\<close>: a string all of whose code units are below \<open>256\<close> is read as a byte string
  and encoded; on any other string \<open>btoa\<close> throws an \<open>InvalidCharacterError\<close>.  The
  result is base64 text.
\<close>

definition isLatin1 :: "nat list \<Rightarrow> bool" where
  "isLatin1 s = list_all (\<lambda>u. u < 256) s"

definition btoa :: "nat list \<Rightarrow> exn + string" where
  "btoa s = (if isLatin1 s then Inr (base64 (map char_of s)) else Inl InvalidCharacterError)"

text \<open>
  The inner loop \<open>for (j = 0; j <= i; j++) current = btoa(current).substring(0, 16)\<close>
  runs \<open>i + 1\<close> times; \<open>encodeTimes\<close> takes the number of iterations left.
\<close>

fun encodeTimes :: "nat \<Rightarrow> nat list \<Rightarrow> exn + nat list" where
  "encodeTimes 0 current = Inr current"
| "encodeTimes (Suc n) current =
     (case btoa current of
        Inl e \<Rightarrow> Inl e
      | Inr encoded \<Rightarrow> encodeTimes n (units (take 16 encoded)))"

text \<open>
  The outer loop \<open>for (i = 0; i < depth; i++) { ...; hash += current }\<close>, with the loop
  counter \<open>i\<close> and the accumulated \<open>hash\<close> as arguments.
\<close>

function fractalLoop :: "nat list \<Rightarrow> nat \<Rightarrow> nat \<Rightarrow> nat list \<Rightarrow> exn + nat list" where
  "fractalLoop base depth i hash =
     (if i < depth
      then (case encodeTimes (Suc i) base of
              Inl e \<Rightarrow> Inl e
            | Inr current \<Rightarrow> fractalLoop base depth (Suc i) (hash @ current))
      else Inr hash)"
  by pat_completeness auto
termination
  by (relation "measure (\<lambda>(base, depth, i, hash). depth - i)") auto

declare fractalLoop.simps [simp del]

text \<open>
  \<open>generateFractalHash(agentName, depth)\<close>.  The function reads the clock itself:
  \<open>base = agentName + Date.now().toString()\<close>; the reading is the argument \<open>now\<close>
  (milliseconds since the epoch).  It returns \<open>btoa(hash).substring(0, 32)\<close>, or throws
  what a call of \<open>btoa\<close> throws.
\<close>

definition generateFractalHash :: "nat \<Rightarrow> nat list \<Rightarrow> nat \<Rightarrow> exn + string" where
  "generateFractalHash now agentName depth =
     (let base = agentName @ units (natToString now)
      in case fractalLoop base depth 0 [] of
           Inl e \<Rightarrow> Inl e
         | Inr hash \<Rightarrow>
             (case btoa hash of
                Inl e \<Rightarrow> Inl e
              | Inr encoded \<Rightarrow> Inr (take 32 encoded)))"

subsection \<open>The order of an object's properties\<close>

text \<open>
  \<open>Object.entries\<close> and \<open>for ... in\<close> list the own properties whose key is an array
  index (a canonical decimal numeral below \<open>2^32 - 1\<close>) first, in ascending numeric
  order, and then the other keys in insertion order.  \<open>objectEntries\<close> is the order for
  keys that are Latin-1 strings, \<open>forInEntries\<close> the same order for keys given by their
  code units.
\<close>

definition isDigit :: "char \<Rightarrow> bool" where
  "isDigit c = (c \<in> set ''0123456789'')"

definition digitValue :: "char \<Rightarrow> nat" where
  "digitValue c = of_char c - 48"

definition decimalValue :: "string \<Rightarrow> nat" where
  "decimalValue s = foldl (\<lambda>v c. 10 * v + digitValue c) 0 s"

definition isArrayIndex :: "string \<Rightarrow> bool" where
  "isArrayIndex s =
     (s \<noteq> [] \<and> list_all isDigit s \<and> (s = ''0'' \<or> hd s \<noteq> CHR ''0'')
      \<and> decimalValue s < 2 ^ 32 - 1)"

definition objectEntries :: "(string \<times> 'v) list \<Rightarrow> (string \<times> 'v) list" where
  "objectEntries props =
     sort_key (\<lambda>(k, v). decimalValue k) (filter (\<lambda>(k, v). isArrayIndex k) props)
     @ filter (\<lambda>(k, v). \<not> isArrayIndex k) props"

definition isIndexKey :: "nat list \<Rightarrow> bool" where
  "isIndexKey k = (isLatin1 k \<and> isArrayIndex (map char_of k))"

definition forInEntries :: "(nat list \<times> 'v) list \<Rightarrow> (nat list \<times> 'v) list" where
  "forInEntries props =
     sort_key (\<lambda>(k, v). decimalValue (map char_of k)) (filter (\<lambda>(k, v). isIndexKey k) props)
     @ filter (\<lambda>(k, v). \<not> isIndexKey k) props"

subsection \<open>calculateEntropy\<close>

text \<open>
  \<open>for (const char of hash)\<close> iterates a string by code points: a high surrogate
  followed by a low surrogate is one character of two code units, and every other code
  unit is a character of its own.  \<open>codePoints\<close> lists the characters, each a string of
  one or two code units.
\<close>

definition isHighSurrogate :: "nat \<Rightarrow> bool" where
  "isHighSurrogate u = (0xD800 \<le> u \<and> u \<le> 0xDBFF)"

definition isLowSurrogate :: "nat \<Rightarrow> bool" where
  "isLowSurrogate u = (0xDC00 \<le> u \<and> u \<le> 0xDFFF)"

fun codePoints :: "nat list \<Rightarrow> nat list list" where
  "codePoints [] = []"
| "codePoints [u] = [[u]]"
| "codePoints (u # v # rest) =
     (if isHighSurrogate u \<and> isLowSurrogate v then [u, v] # codePoints rest
      else [u] # codePoints (v # rest))"

text \<open>
  \<open>charCounts\<close> is an object keyed by these characters, an association list in insertion
  order; no key of one or two code units is inherited from \<open>Object.prototype\<close>, so
  \<open>charCounts[char] || 0\<close> is the stored count or \<open>0\<close>.
\<close>

definition countChar :: "(nat list \<times> nat) list \<Rightarrow> nat list \<Rightarrow> (nat list \<times> nat) list" where
  "countChar charCounts char =
     (case map_of charCounts char of
        None \<Rightarrow> charCounts @ [(char, 1)]
      | Some n \<Rightarrow> map (\<lambda>(k, v). if k = char then (k, n + 1) else (k, v)) charCounts)"

text \<open>The first loop, \<open>for (const char of hash) charCounts[char] = (charCounts[char] || 0) + 1\<close>.\<close>

definition countTable :: "nat list \<Rightarrow> (nat list \<times> nat) list" where
  "countTable hash = foldl countChar [] (codePoints hash)"

text \<open>
  The second loop divides each count by \<open>hash.length\<close>, the number of code units of the
  string.
\<close>

definition calculateEntropy :: "nat list \<Rightarrow> real" where
  "calculateEntropy hash =
     (let charCounts = countTable hash;
          len = length hash
      in foldl (\<lambda>entropy (char, n).
                  let probability = real n / real len
                  in entropy - probability * log 2 probability)
           0 (forInEntries charCounts))"

subsection \<open>stripCodeBlock\<close>

text \<open>
  \<open>String.prototype.trim\<close> removes white space and line terminators from both ends; among
  the 8-bit characters these are TAB, LF, VT, FF, CR, space and the no-break space.
\<close>

definition isWhiteSpace :: "char \<Rightarrow> bool" where
  "isWhiteSpace c = (c \<in> set [CHR 0x09, CHR 0x0A, CHR 0x0B, CHR 0x0C, CHR 0x0D, CHR 0x20, CHR 0xA0])"

definition trim :: "string \<Rightarrow> string" where
  "trim s = rev (dropWhile isWhiteSpace (rev (dropWhile isWhiteSpace s)))"

text \<open>The class \<open>\w\<close>: ASCII letters, digits and the underscore.\<close>

definition isWordChar :: "char \<Rightarrow> bool" where
  "isWordChar c =
     (c \<in> set ''ABCDEFGHIJKLMNOPQRSTUVWXYZabcdefghijklmnopqrstuvwxyz0123456789_'')"

definition fence :: string where
  "fence = [CHR 0x60, CHR 0x60, CHR 0x60]"

text \<open>
  The regular expression \<open>/^```(?:\w+)?\n([\s\S]*?)\n```$/\<close> on a whole string.  After the
  opening fence the optional \<open>\w+\<close> can only take the maximal run of word characters, as
  the next character must be a line feed; \<open>$\<close> (no \<open>m\<close> flag) is the end of the input, so
  the lazy group is everything between that line feed and a final line feed and fence.
  The result is the captured group, \<open>None\<close> when there is no match.
\<close>

definition matchCodeBlock :: "string \<Rightarrow> string option" where
  "matchCodeBlock s =
     (if take 3 s = fence
      then (case dropWhile isWordChar (drop 3 s) of
              [] \<Rightarrow> None
            | c # rest \<Rightarrow>
                if c = CHR 0x0A \<and> 4 \<le> length rest
                   \<and> drop (length rest - 4) rest = CHR 0x0A # fence
                then Some (take (length rest - 4) rest)
                else None)
      else None)"

text \<open>
  \<open>if (match && match[1]) return match[1].trim(); return trimmed;\<close>: an empty captured
  group is falsy.
\<close>

definition stripCodeBlock :: "string \<Rightarrow> string" where
  "stripCodeBlock content =
     (let trimmed = trim content
      in case matchCodeBlock trimmed of
           Some body \<Rightarrow> if body \<noteq> [] then trim body else trimmed
         | None \<Rightarrow> trimmed)"

section \<open>constants.ts\<close>

definition MAX_CONTEXT_LENGTH :: nat where
  "MAX_CONTEXT_LENGTH = 8000"

definition REASONING_STRATEGIES :: "string list" where
  "REASONING_STRATEGIES =
     [''Apply recursive optimization patterns'',
      ''Use quantum efficiency algorithms'',
      ''Implement fractal code structure'',
      ''Apply hyperthreaded reasoning'',
      ''Use entropy-based selection'',
      ''Apply mathematical transformation'',
      ''Implement parallel processing'',
      ''Use consensus validation'',
      ''Apply abstract syntax tree manipulation'',
      ''Implement heuristic code generation'',
      ''Use semantic code analysis'',
      ''Apply pattern recognition for refactoring'',
      ''Generate declarative programming structures'',
      ''Optimize for functional purity'',
      ''Implement aspect-oriented programming principles'',
      ''Utilize genetic algorithms for code evolution'',
      ''Employ symbolic execution for bug detection'',
      ''Transform imperative to functional paradigms'',
      ''Apply dependency graph optimization'',
      ''Integrate formal verification methods'']"

section \<open>services/geminiService.ts\<close>

text \<open>
  \<open>AgentInfo\<close> (declared in types.ts): the fields \<open>id\<close> and \<open>origin\<close>, named
  \<open>agent_id\<close> and \<open>agent_origin\<close> here, \<open>origin\<close> being also a field of
  \<open>CandidateFragment\<close>.
\<close>

record AgentInfo =
  agent_id :: string
  agent_origin :: string

definition nl :: string where
  "nl = [CHR 0x0A]"

definition dq :: string where
  "dq = [CHR 0x22]"

text \<open>\<open>agent.id.replace('-', '_')\<close> replaces the first hyphen only.\<close>

fun replaceFirstHyphen :: "string \<Rightarrow> string" where
  "replaceFirstHyphen [] = []"
| "replaceFirstHyphen (c # cs) =
     (if c = CHR ''-'' then CHR ''_'' # cs else c # replaceFirstHyphen cs)"

definition simulatedResponse :: "AgentInfo \<Rightarrow> string" where
  "simulatedResponse agent =
     ''// SIMULATED RESPONSE for Agent '' @ agent_id agent @ nl
     @ ''function simulated_task_for_'' @ replaceFirstHyphen (agent_id agent) @ ''() {'' @ nl
     @ ''    console.log('' @ dq
     @ ''This is a simulated response due to lack of AI connection.'' @ dq @ '');'' @ nl
     @ ''}''"

definition strategyIndex :: "nat \<Rightarrow> nat \<Rightarrow> nat" where
  "strategyIndex rnd reasoningDepth = (rnd * reasoningDepth) mod length REASONING_STRATEGIES"

definition truncateContext :: "string \<Rightarrow> string" where
  "truncateContext context =
     (if length context > MAX_CONTEXT_LENGTH
      then (let half = MAX_CONTEXT_LENGTH div 2
            in take half context
               @ nl @ nl @ ''// ... [CODE TRUNCATED FOR BREVITY] ...'' @ nl @ nl
               @ drop (length context - half) context)
      else context)"

definition fullPrompt :: "AgentInfo \<Rightarrow> nat \<Rightarrow> string \<Rightarrow> string \<Rightarrow> string \<Rightarrow> string \<Rightarrow> string" where
  "fullPrompt agent rnd strategy prompt editorLanguage truncatedContext =
     ''You are an expert coding agent in a multi-agent system.'' @ nl
     @ ''Your agent ID is '' @ agent_id agent @ ''.'' @ nl
     @ ''You are in round '' @ natToString (rnd + 1) @ '' of a multi-round reasoning process.'' @ nl
     @ ''Your assigned strategy is: '' @ dq @ strategy @ dq @ ''.'' @ nl
     @ nl
     @ ''Based on this strategy, analyze the user'' @ [CHR 0x27]
     @ ''s request and the provided code to generate an improved or new code snippet.'' @ nl
     @ nl
     @ ''USER REQUEST: '' @ dq @ prompt @ dq @ nl
     @ nl
     @ ''CODE CONTEXT:'' @ nl
     @ fence @ editorLanguage @ nl
     @ truncatedContext @ nl
     @ fence @ nl
     @ nl
     @ ''Provide only the generated code snippet as your response. Do not include explanations or markdown formatting around the code.''"

text \<open>
  The provenance header put in front of the stripped response: two comment lines.
\<close>

definition provenance :: "(real \<Rightarrow> string) \<Rightarrow> AgentInfo \<Rightarrow> nat \<Rightarrow> string \<Rightarrow> string" where
  "provenance numberToString agent rnd strategy =
     ''// Agent: '' @ agent_id agent @ '' | Round: '' @ natToString (rnd + 1)
     @ '' | Strategy: '' @ strategy @ nl
     @ ''// Seed: '' @ take 12 (agent_origin agent) @ '' | Entropy: ''
     @ toFixed numberToString 3 (calculateEntropy (units (agent_origin agent))) @ nl"

text \<open>
  \<open>runOrchestrationAgentStep\<close>.  The field \<open>this.ai\<close> is \<open>None\<close> when no API key is
  configured; otherwise it is the collaborator, a function from the prompt to the text of
  its response or to the error it throws.  The time-outs are left out.
\<close>

definition runOrchestrationAgentStep ::
  "(real \<Rightarrow> string) \<Rightarrow> (string \<Rightarrow> exn + string) option \<Rightarrow> AgentInfo \<Rightarrow> string \<Rightarrow> string
     \<Rightarrow> nat \<Rightarrow> string \<Rightarrow> nat \<Rightarrow> exn + string" where
  "runOrchestrationAgentStep numberToString ai agent prompt context rnd editorLanguage reasoningDepth =
     (case ai of
        None \<Rightarrow> Inr (simulatedResponse agent)
      | Some generateContent \<Rightarrow>
          (let strategy = REASONING_STRATEGIES ! strategyIndex rnd reasoningDepth;
               truncatedContext = truncateContext context
           in case generateContent (fullPrompt agent rnd strategy prompt editorLanguage truncatedContext) of
                Inl error \<Rightarrow> Inl error
              | Inr text \<Rightarrow>
                  (let codeCandidate = stripCodeBlock text
                   in Inr (provenance numberToString agent rnd strategy @ codeCandidate))))"

section \<open>types.ts\<close>

text \<open>
  The records keep the field names of the interfaces, except where a name is taken: the
  field \<open>round\<close> of \<open>CandidateFragment\<close> is \<open>roundNo\<close>; the fields \<open>timestamp\<close>
  and \<open>type\<close> of a log entry are \<open>entryTimestamp\<close> and \<open>entryType\<close>; the field
  \<open>log\<close> of an agent's status is \<open>agentLog\<close>; the field \<open>agents\<close> of the
  application state is \<open>agentStates\<close>; the settings \<open>agentCount\<close>, \<open>maxRounds\<close> and
  \<open>reasoningDepth\<close> carry the prefix \<open>settings\<close>.  The settings and the application
  state have the fields the orchestration reads or writes.
\<close>

record CandidateFragment =
  agentId :: string
  origin :: string
  roundNo :: nat
  candidate :: string
  entropy :: real
  timestamp :: nat

record CandidateGroup =
  key :: string
  candidates :: "CandidateFragment list"
  score :: real
  agentCount :: nat
  roundCount :: nat
  avgEntropy :: real

text \<open>
  \<open>ConsensusResult\<close>.  Its fields \<open>score\<close>, \<open>agentCount\<close>, \<open>roundCount\<close> and
  \<open>avgEntropy\<close> carry the prefix \<open>result\<close> here, the plain names being those of
  \<open>CandidateGroup\<close>.
\<close>

record ConsensusResult =
  genesis :: string
  selectedCandidate :: string
  resultScore :: string
  resultAgentCount :: nat
  resultRoundCount :: nat
  resultAvgEntropy :: string
  rootAgent :: string
  rootEntropy :: string
  allGroups :: "CandidateGroup list"

datatype AgentType = NEXUS | COGNITO | RELAY | SENTINEL | ECHO

datatype LogType = INFO | GENESIS | ORIGIN | EVENT | FRAGMENT | CONSENSUS

record OrchestrationLogEntry =
  entryTimestamp :: string
  message :: string
  entryType :: LogType

record AgentStatus =
  content :: string
  agentLog :: "OrchestrationLogEntry list"
  isActive :: bool

record QuantumSettings =
  multiAgentMode :: bool
  settingsAgentCount :: nat
  settingsMaxRounds :: nat
  settingsReasoningDepth :: nat

text \<open>
  \<open>QuantumAppState\<close>: every update of the source copies the fields it does not write
  (\<open>...prevState\<close>), as a record update does.
\<close>

record QuantumAppState =
  isGenerating :: bool
  settings :: QuantumSettings
  editorContent :: string
  currentFileType :: string
  agentStates :: "AgentType \<Rightarrow> AgentStatus"
  consensusResult :: "ConsensusResult option"
  showOrchestrationPanel :: bool
  quantumConsensusCode :: "string option"

section \<open>App.tsx: assembleFinalAnswer\<close>

text \<open>
  The accumulator of one group: \<open>{ candidates, totalEntropy, agents: Set<string>,
  rounds: Set<number> }\<close>.  A JavaScript \<open>Set\<close> is a duplicate-free list in insertion
  order; \<open>add\<close> appends an absent element and \<open>size\<close> is the length.
\<close>

record GroupAcc =
  accCandidates :: "CandidateFragment list"
  totalEntropy :: real
  groupAgents :: "string list"
  groupRounds :: "nat list"

definition setAdd :: "'a \<Rightarrow> 'a list \<Rightarrow> 'a list" where
  "setAdd x xs = (if x \<in> set xs then xs else xs @ [x])"

definition emptyGroup :: GroupAcc where
  "emptyGroup = \<lparr>accCandidates = [], totalEntropy = 0, groupAgents = [], groupRounds = []\<rparr>"

definition pushCandidate :: "CandidateFragment \<Rightarrow> GroupAcc \<Rightarrow> GroupAcc" where
  "pushCandidate c g =
     \<lparr>accCandidates = accCandidates g @ [c],
      totalEntropy = totalEntropy g + entropy c,
      groupAgents = setAdd (agentId c) (groupAgents g),
      groupRounds = setAdd (roundNo c) (groupRounds g)\<rparr>"

text \<open>
  \<open>candidateGroups\<close> is an object literal \<open>{}\<close> used as a dictionary: its own properties
  are an association list in insertion order.  Reading \<open>candidateGroups[key]\<close> for a key
  that is not an own property falls through to \<open>Object.prototype\<close>, whose property names
  are listed below; each of them holds a truthy value (a function, or the prototype itself
  for \<open>__proto__\<close>) that has no \<open>candidates\<close> property.
\<close>

definition objectPrototypeKeys :: "string list" where
  "objectPrototypeKeys =
     [''constructor'', ''__defineGetter__'', ''__defineSetter__'', ''hasOwnProperty'',
      ''__lookupGetter__'', ''__lookupSetter__'', ''isPrototypeOf'', ''propertyIsEnumerable'',
      ''toString'', ''valueOf'', ''__proto__'', ''toLocaleString'']"

text \<open>
  One iteration of \<open>for (const candidate of allCandidates)\<close>.  When the key is neither an
  own property nor inherited the group is created and the fragment pushed.  When it is
  inherited, \<open>!candidateGroups[key]\<close> is false, no group is created, and
  \<open>candidateGroups[key].candidates.push\<close> reads \<open>push\<close> of \<open>undefined\<close>: a TypeError.
\<close>

definition addCandidate ::
  "(string \<times> GroupAcc) list \<Rightarrow> CandidateFragment \<Rightarrow> exn + (string \<times> GroupAcc) list" where
  "addCandidate groups c =
     (let k = take 100 (candidate c)
      in case map_of groups k of
           Some g \<Rightarrow> Inr (map (\<lambda>(k', g'). if k' = k then (k', pushCandidate c g') else (k', g')) groups)
         | None \<Rightarrow>
             if k \<in> set objectPrototypeKeys then Inl TypeError
             else Inr (groups @ [(k, pushCandidate c emptyGroup)]))"

fun groupCandidates ::
  "(string \<times> GroupAcc) list \<Rightarrow> CandidateFragment list \<Rightarrow> exn + (string \<times> GroupAcc) list" where
  "groupCandidates groups [] = Inr groups"
| "groupCandidates groups (c # cs) =
     (case addCandidate groups c of
        Inl e \<Rightarrow> Inl e
      | Inr groups' \<Rightarrow> groupCandidates groups' cs)"

text \<open>
  \<open>Object.entries(candidateGroups)\<close> is \<^const>\<open>objectEntries\<close>: the own properties
  whose key is an array index (a canonical decimal numeral below \<open>2^32 - 1\<close>) first, in
  ascending numeric order, and then the other keys in insertion order.
\<close>

definition scoreGroup :: "string \<times> GroupAcc \<Rightarrow> CandidateGroup" where
  "scoreGroup = (\<lambda>(k, group).
     let agentCount = length (groupAgents group);
         roundCount = length (groupRounds group);
         avgEntropy = totalEntropy group / real (length (accCandidates group));
         score = (real agentCount * 2) + (real roundCount * 1.5) + (avgEntropy * 3)
     in \<lparr>key = k, candidates = accCandidates group, score = score,
         agentCount = agentCount, roundCount = roundCount, avgEntropy = avgEntropy\<rparr>)"

text \<open>
  \<open>scoredGroups.sort((a, b) => b.score - a.score)\<close>: \<open>Array.prototype.sort\<close> is stable,
  as is \<^const>\<open>sort_key\<close>; descending order is ascending order of the negated score.
\<close>

definition sortByScore :: "CandidateGroup list \<Rightarrow> CandidateGroup list" where
  "sortByScore gs = sort_key (\<lambda>g. - score g) gs"

text \<open>
  \<open>candidates.reduce((best, current) => current.entropy > best.entropy ? current : best)\<close>
  without an initial value: the first element starts as \<open>best\<close>; on an empty array
  \<open>reduce\<close> throws a TypeError.
\<close>

definition rootCandidateOf :: "CandidateFragment list \<Rightarrow> exn + CandidateFragment" where
  "rootCandidateOf cs =
     (case cs of
        [] \<Rightarrow> Inl TypeError
      | c # rest \<Rightarrow> Inr (foldl (\<lambda>best current. if entropy current > entropy best then current else best) c rest))"

definition sentinelResult :: "string \<Rightarrow> ConsensusResult" where
  "sentinelResult g =
     \<lparr>genesis = g,
      selectedCandidate = ''// No valid candidates were generated by the agents.'',
      resultScore = ''0'', resultAgentCount = 0, resultRoundCount = 0, resultAvgEntropy = ''0'',
      rootAgent = ''N/A'', rootEntropy = ''0'', allGroups = []\<rparr>"

definition assembleFinalAnswer ::
  "(real \<Rightarrow> string) \<Rightarrow> CandidateFragment list \<Rightarrow> string \<Rightarrow> exn + ConsensusResult" where
  "assembleFinalAnswer numberToString allCandidates g =
     (case groupCandidates [] allCandidates of
        Inl e \<Rightarrow> Inl e
      | Inr candidateGroups \<Rightarrow>
          let scoredGroups = map scoreGroup (objectEntries candidateGroups)
          in if length scoredGroups = 0 then Inr (sentinelResult g)
             else
               let sorted = sortByScore scoredGroups;
                   topGroup = hd sorted
               in case rootCandidateOf (candidates topGroup) of
                    Inl e \<Rightarrow> Inl e
                  | Inr rootCandidate \<Rightarrow>
                      (case candidates topGroup of
                         [] \<Rightarrow> Inl TypeError
                       | first # _ \<Rightarrow>
                           Inr \<lparr>genesis = g,
                                selectedCandidate = candidate first,
                                resultScore = toFixed numberToString 3 (score topGroup),
                                resultAgentCount = agentCount topGroup,
                                resultRoundCount = roundCount topGroup,
                                resultAvgEntropy = toFixed numberToString 3 (avgEntropy topGroup),
                                rootAgent = agentId rootCandidate,
                                rootEntropy = toFixed numberToString 3 (entropy rootCandidate),
                                allGroups = sorted\<rparr>))"

section \<open>App.tsx: the orchestration run\<close>

text \<open>
  What a run takes from outside the core: the digest \<open>sha256\<close> (a call of
  \<open>crypto.subtle.digest\<close>, which returns the hexadecimal digest or throws), the number
  printer, the collaborator, the clock readings (\<open>Date.now()\<close> at the genesis, inside
  \<open>generateFractalHash\<close> for the agent of a given index, and for the fragment of a given
  round and agent index; the locale time string of the \<open>k\<close>-th entry of an agent's log),
  the result of \<open>generateEventId()\<close>, the engine's messages of a TypeError and of an
  InvalidCharacterError, and the value of the prompt input box (\<open>None\<close> when the
  reference is unset).
\<close>

record Env =
  env_sha256 :: "string \<Rightarrow> exn + string"
  env_numberToString :: "real \<Rightarrow> string"
  env_ai :: "(string \<Rightarrow> exn + string) option"
  env_genesisTime :: nat
  env_seedTime :: "nat \<Rightarrow> nat"
  env_fragmentTime :: "nat \<Rightarrow> nat \<Rightarrow> nat"
  env_localeTime :: "AgentType \<Rightarrow> nat \<Rightarrow> string"
  env_eventId :: string
  env_typeErrorMessage :: string
  env_invalidCharacterMessage :: string
  env_promptInput :: "string option"

definition exnMessage :: "Env \<Rightarrow> exn \<Rightarrow> string" where
  "exnMessage env e =
     (case e of
        TypeError \<Rightarrow> env_typeErrorMessage env
      | Error m \<Rightarrow> m
      | InvalidCharacterError \<Rightarrow> env_invalidCharacterMessage env)"

definition INITIAL_AGENTS_STATE :: "AgentType \<Rightarrow> AgentStatus" where
  "INITIAL_AGENTS_STATE t =
     (case t of
        NEXUS \<Rightarrow> \<lparr>content = ''Idle. Awaiting quantum command.'', agentLog = [], isActive = False\<rparr>
      | COGNITO \<Rightarrow> \<lparr>content = ''Ready'', agentLog = [], isActive = False\<rparr>
      | RELAY \<Rightarrow> \<lparr>content = ''Ready'', agentLog = [], isActive = False\<rparr>
      | SENTINEL \<Rightarrow> \<lparr>content = ''Ready'', agentLog = [], isActive = False\<rparr>
      | ECHO \<Rightarrow> \<lparr>content = ''Awaiting assembly instructions...'', agentLog = [], isActive = False\<rparr>)"

text \<open>
  \<open>addLog\<close> and \<open>setAgentStatus\<close> are functional state updates
  (\<open>setState(prevState => ...)\<close>), applied in the order they are issued.
\<close>

definition addLog :: "Env \<Rightarrow> AgentType \<Rightarrow> string \<Rightarrow> LogType \<Rightarrow> QuantumAppState \<Rightarrow> QuantumAppState" where
  "addLog env agentType msg type prevState =
     (let old = agentStates prevState agentType;
          logEntry = \<lparr>entryTimestamp = env_localeTime env agentType (length (agentLog old)),
                      message = msg, entryType = type\<rparr>
      in prevState\<lparr>agentStates := (agentStates prevState)
            (agentType := old\<lparr>agentLog := agentLog old @ [logEntry]\<rparr>)\<rparr>)"

definition setAgentStatus :: "AgentType \<Rightarrow> string \<Rightarrow> bool \<Rightarrow> QuantumAppState \<Rightarrow> QuantumAppState" where
  "setAgentStatus agentType c active prevState =
     prevState\<lparr>agentStates := (agentStates prevState)
       (agentType := (agentStates prevState agentType)\<lparr>content := c, isActive := active\<rparr>)\<rparr>"

definition spinner :: string where
  "spinner = ''<div class='' @ dq @ ''quantum-spinner'' @ dq @ ''></div>''"

text \<open>The values fixed at the start of a run and used by every agent step.\<close>

record RunContext =
  ctx_genesisHash :: string
  ctx_promptText :: string
  ctx_editorContext :: string
  ctx_editorLanguage :: string
  ctx_reasoningDepth :: nat

text \<open>
  Agent seeding, \<open>for (let i = 0; i < agentCount; i++)\<close>: the origin is
  \<open>generateFractalHash(genesisHash + agentId)\<close> with the default depth \<open>3\<close>; what the
  call throws ends the seeding.
\<close>

function seedAgents ::
  "Env \<Rightarrow> string \<Rightarrow> nat \<Rightarrow> nat \<Rightarrow> AgentInfo list \<Rightarrow> QuantumAppState
     \<Rightarrow> QuantumAppState \<times> (exn + AgentInfo list)" where
  "seedAgents env genesisHash numAgents i agents s =
     (if i < numAgents
      then (let agentId = ''agent-'' @ natToString i
            in case generateFractalHash (env_seedTime env i) (units (genesisHash @ agentId)) 3 of
                 Inl e \<Rightarrow> (s, Inl e)
               | Inr originHash \<Rightarrow>
                   (let s' = addLog env NEXUS (agentId @ '': '' @ take 12 originHash @ ''...'') ORIGIN s
                    in seedAgents env genesisHash numAgents (Suc i)
                         (agents @ [\<lparr>agent_id = agentId, agent_origin = originHash\<rparr>]) s'))
      else (s, Inr agents))"
  by pat_completeness auto
termination
  by (relation "measure (\<lambda>(env, genesisHash, numAgents, i, agents, s). numAgents - i)") auto

declare seedAgents.simps [simp del]

text \<open>
  The callback of \<open>agents.map(async (agent, index) => ...)\<close> for one agent: the origin
  is rotated (\<open>sha256(agent.origin + genesisHash + round.toString())\<close>) and stored in
  the agent, the step runner is called with the rotated agent, and the fragment is built
  from the agent's (rotated) origin.
\<close>

definition agentStep ::
  "Env \<Rightarrow> RunContext \<Rightarrow> nat \<Rightarrow> nat \<Rightarrow> AgentInfo \<Rightarrow> AgentInfo \<times> (exn + CandidateFragment)" where
  "agentStep env ctx rnd index agent =
     (case env_sha256 env (agent_origin agent @ ctx_genesisHash ctx @ natToString rnd) of
        Inl e \<Rightarrow> (agent, Inl e)
      | Inr newOrigin \<Rightarrow>
          (let agent' = agent\<lparr>agent_origin := newOrigin\<rparr>
           in case runOrchestrationAgentStep (env_numberToString env) (env_ai env) agent'
                     (ctx_promptText ctx) (ctx_editorContext ctx) rnd (ctx_editorLanguage ctx)
                     (ctx_reasoningDepth ctx) of
                Inl e \<Rightarrow> (agent', Inl e)
              | Inr candidateContent \<Rightarrow>
                  (agent', Inr \<lparr>agentId = agent_id agent',
                                origin = agent_origin agent',
                                roundNo = rnd,
                                candidate = candidateContent,
                                entropy = calculateEntropy (units (agent_origin agent')),
                                timestamp = env_fragmentTime env rnd index\<rparr>)))"

text \<open>
  One round.  The callbacks of a round run concurrently, each on its own agent object;
  they share only the accumulator \<open>allCandidates\<close> and the log, to which they append when
  they complete.  The model lets them complete in index order, and \<open>Promise.all\<close>
  rejects with the first failure.  The result is the state, and either the error or the
  agents (with their new origins) and the accumulator.
\<close>

fun roundSteps ::
  "Env \<Rightarrow> RunContext \<Rightarrow> nat \<Rightarrow> nat \<Rightarrow> AgentInfo list \<Rightarrow> CandidateFragment list \<Rightarrow> QuantumAppState
     \<Rightarrow> QuantumAppState \<times> (exn + AgentInfo list \<times> CandidateFragment list)" where
  "roundSteps env ctx rnd index [] allCandidates s = (s, Inr ([], allCandidates))"
| "roundSteps env ctx rnd index (agent # rest) allCandidates s =
     (case agentStep env ctx rnd index agent of
        (agent', Inl e) \<Rightarrow> (s, Inl e)
      | (agent', Inr fragment) \<Rightarrow>
          (let s' = addLog env SENTINEL
                      (''Fragment from '' @ agent_id agent' @ '' (round '' @ natToString (rnd + 1) @ '')'')
                      FRAGMENT s
           in case roundSteps env ctx rnd (Suc index) rest (allCandidates @ [fragment]) s' of
                (s'', Inl e) \<Rightarrow> (s'', Inl e)
              | (s'', Inr (rest', allCandidates')) \<Rightarrow> (s'', Inr (agent' # rest', allCandidates'))))"

text \<open>The loop \<open>for (let round = 0; round < maxRounds; round++)\<close>.\<close>

function roundsLoop ::
  "Env \<Rightarrow> RunContext \<Rightarrow> nat \<Rightarrow> nat \<Rightarrow> AgentInfo list \<Rightarrow> CandidateFragment list \<Rightarrow> QuantumAppState
     \<Rightarrow> QuantumAppState \<times> (exn + AgentInfo list \<times> CandidateFragment list)" where
  "roundsLoop env ctx maxRounds rnd agents allCandidates s =
     (if rnd < maxRounds
      then (let s1 = addLog env RELAY
                       (spinner @ ''Round '' @ natToString (rnd + 1) @ ''/'' @ natToString maxRounds @ ''...'')
                       INFO s;
                s2 = setAgentStatus RELAY
                       (''Processing round '' @ natToString (rnd + 1) @ '' with ''
                        @ natToString (length agents) @ '' agents...'') True s1
            in case roundSteps env ctx rnd 0 agents allCandidates s2 of
                 (s3, Inl e) \<Rightarrow> (s3, Inl e)
               | (s3, Inr (agents', allCandidates')) \<Rightarrow>
                   roundsLoop env ctx maxRounds (Suc rnd) agents' allCandidates' s3)
      else (s, Inr (agents, allCandidates)))"
  by pat_completeness auto
termination
  by (relation "measure (\<lambda>(env, ctx, maxRounds, rnd, agents, allCandidates, s). maxRounds - rnd)") auto

declare roundsLoop.simps [simp del]

text \<open>
  The body of \<open>try\<close>: genesis, seeding, the rounds, and (\<open>afterRounds\<close>) the assembly
  and the final state update.  It returns the state reached and whether it completed or
  threw.
\<close>

definition afterRounds ::
  "Env \<Rightarrow> string \<Rightarrow> CandidateFragment list \<Rightarrow> QuantumAppState \<Rightarrow> QuantumAppState \<times> (exn + unit)" where
  "afterRounds env genesisHash allCandidates s8 =
     (let s9 = addLog env SENTINEL (spinner @ ''Assembling final consensus...'') INFO s8;
          s10 = setAgentStatus SENTINEL
                  (''Evaluating '' @ natToString (length allCandidates)
                   @ '' fragments for consensus...'') True s9
      in case assembleFinalAnswer (env_numberToString env) allCandidates genesisHash of
           Inl e \<Rightarrow> (s10, Inl e)
         | Inr consensus \<Rightarrow>
             (let s11 = setAgentStatus ECHO
                          (spinner @ ''Reassembling script from consensus...'') True s10;
                  s12 = addLog env ECHO
                          (''Assembly started. Verified Genesis: ''
                           @ take 12 (genesis consensus) @ ''...'') CONSENSUS s11;
                  s13 = addLog env ECHO
                          (''Selected candidate from Agent '' @ rootAgent consensus
                           @ '' with score '' @ resultScore consensus @ ''.'') CONSENSUS s12
              in case env_sha256 env (selectedCandidate consensus) of
                   Inl e \<Rightarrow> (s13, Inl e)
                 | Inr finalCodeHash \<Rightarrow>
                     (let s14 = addLog env ECHO
                                  (''Verified final code hash: '' @ take 12 finalCodeHash @ ''...'')
                                  CONSENSUS s13;
                          s15 = addLog env ECHO ''Reassembly complete. Quantum script generated.''
                                  CONSENSUS s14
                      in (s15\<lparr>consensusResult := Some consensus,
                               quantumConsensusCode := Some (selectedCandidate consensus)\<rparr>,
                          Inr ()))))"

definition tryBody ::
  "Env \<Rightarrow> string \<Rightarrow> string \<Rightarrow> string \<Rightarrow> QuantumSettings \<Rightarrow> QuantumAppState
     \<Rightarrow> QuantumAppState \<times> (exn + unit)" where
  "tryBody env promptText editorContext editorLanguage cfg s0 =
     (let s1 = addLog env NEXUS ''Generating genesis hash from current code...'' GENESIS s0
      in case env_sha256 env (''GENESIS'' @ natToString (env_genesisTime env) @ editorContext) of
           Inl e \<Rightarrow> (s1, Inl e)
         | Inr genesisHash \<Rightarrow>
             (let s2 = addLog env NEXUS (''Genesis: '' @ take 16 genesisHash @ ''...'') GENESIS s1;
                  s3 = addLog env NEXUS ''Generating origin hashes for agents...'' ORIGIN s2;
                  numAgents = settingsAgentCount cfg
              in case seedAgents env genesisHash numAgents 0 [] s3 of
                   (s4, Inl e) \<Rightarrow> (s4, Inl e)
                 | (s4, Inr agents) \<Rightarrow>
                     (let s5 = addLog env NEXUS ''Creating event log entry...'' EVENT s4;
                          s6 = addLog env NEXUS (''Event: '' @ env_eventId env @ '' logged'') EVENT s5;
                          s7 = setAgentStatus COGNITO
                                 (spinner @ ''Spawning '' @ natToString numAgents
                                  @ '' fractal agents...'') True s6;
                          ctx = \<lparr>ctx_genesisHash = genesisHash, ctx_promptText = promptText,
                                 ctx_editorContext = editorContext,
                                 ctx_editorLanguage = editorLanguage,
                                 ctx_reasoningDepth = settingsReasoningDepth cfg\<rparr>
                      in case roundsLoop env ctx (settingsMaxRounds cfg) 0 agents [] s7 of
                           (s8, Inl e) \<Rightarrow> (s8, Inl e)
                         | (s8, Inr (agents', allCandidates)) \<Rightarrow>
                             afterRounds env genesisHash allCandidates s8)))"

text \<open>The \<open>catch\<close> block and the \<open>finally\<close> block.\<close>

definition catchHandler :: "Env \<Rightarrow> exn \<Rightarrow> QuantumAppState \<Rightarrow> QuantumAppState" where
  "catchHandler env e s =
     (let s1 = addLog env ECHO
                 (''<span style='' @ dq @ ''color: #ff4444'' @ dq @ ''>Orchestrator Error: ''
                  @ exnMessage env e @ ''</span>'') INFO s
      in setAgentStatus ECHO
           (''<span class='' @ dq @ ''text-error-color'' @ dq @ ''>Error: ''
            @ exnMessage env e @ ''</span>'') False s1)"

definition finalizer :: "QuantumAppState \<Rightarrow> QuantumAppState" where
  "finalizer s =
     (let s1 = fold (\<lambda>type. setAgentStatus type (content (INITIAL_AGENTS_STATE type)) False)
                 [NEXUS, COGNITO, RELAY, SENTINEL, ECHO] s;
          s2 = setAgentStatus NEXUS ''Enhanced orchestration complete'' False s1
      in s2\<lparr>isGenerating := False\<rparr>)"

text \<open>
  \<open>promptOverride || promptInputRef.current?.value.trim() || '...'\<close>: an empty string is
  falsy.
\<close>

definition choosePrompt :: "string option \<Rightarrow> string option \<Rightarrow> string" where
  "choosePrompt promptOverride promptInput =
     (case promptOverride of
        Some p \<Rightarrow> if p \<noteq> [] then p else
          (case promptInput of
             Some v \<Rightarrow> if trim v \<noteq> [] then trim v else ''Optimize this code with quantum fractal patterns''
           | None \<Rightarrow> ''Optimize this code with quantum fractal patterns'')
      | None \<Rightarrow>
          (case promptInput of
             Some v \<Rightarrow> if trim v \<noteq> [] then trim v else ''Optimize this code with quantum fractal patterns''
           | None \<Rightarrow> ''Optimize this code with quantum fractal patterns''))"

definition startRun :: "QuantumAppState \<Rightarrow> QuantumAppState" where
  "startRun prevState =
     setAgentStatus NEXUS (spinner @ ''Starting enhanced quantum orchestration...'') True
       (prevState\<lparr>isGenerating := True,
                  showOrchestrationPanel := True,
                  consensusResult := None,
                  agentStates := INITIAL_AGENTS_STATE\<rparr>)"

text \<open>
  The \<open>try\<close> block of a run started in \<open>state\<close>: the prompt, the editor content and
  language and the settings are read from the state the callback closed over.
\<close>

definition runBody :: "Env \<Rightarrow> string option \<Rightarrow> QuantumAppState \<Rightarrow> QuantumAppState \<times> (exn + unit)" where
  "runBody env promptOverride state =
     (let promptText = choosePrompt promptOverride (env_promptInput env);
          editorContext = editorContent state;
          editorLanguage = currentFileType state
      in tryBody env promptText editorContext editorLanguage (settings state) (startRun state))"

definition runEnhancedOrchestrator ::
  "Env \<Rightarrow> string option \<Rightarrow> QuantumAppState \<Rightarrow> QuantumAppState" where
  "runEnhancedOrchestrator env promptOverride state =
     (if isGenerating state then state
      else
        (case runBody env promptOverride state of
           (s, Inl e) \<Rightarrow> finalizer (catchHandler env e s)
         | (s, Inr u) \<Rightarrow> finalizer s))"

section \<open>Reference definitions\<close>

text \<open>
  Shannon entropy in bits of the character-frequency distribution of a string, as the
  specification words it: the sum of \<open>- p * log2 p\<close> over the distinct characters, where
  \<open>p\<close> is the relative frequency of the character.  The string is given as the list of
  its characters.
\<close>

definition plogp :: "nat \<Rightarrow> nat \<Rightarrow> real" where
  "plogp len n = (real n / real len) * log 2 (real n / real len)"

definition frequency :: "'a list \<Rightarrow> 'a \<Rightarrow> real" where
  "frequency s c = real (count_list s c) / real (length s)"

definition shannonEntropy :: "'a list \<Rightarrow> real" where
  "shannonEntropy s = (\<Sum>c\<in>set s. - frequency s c * log 2 (frequency s c))"

text \<open>
  The fractal hash of a Latin-1 seed, where no call of \<open>btoa\<close> throws: the same loops on
  \<^typ>\<open>string\<close> without the error case.
\<close>

fun encodeTimesLatin1 :: "nat \<Rightarrow> string \<Rightarrow> string" where
  "encodeTimesLatin1 0 current = current"
| "encodeTimesLatin1 (Suc n) current = encodeTimesLatin1 n (take 16 (base64 current))"

function fractalLoopLatin1 :: "string \<Rightarrow> nat \<Rightarrow> nat \<Rightarrow> string \<Rightarrow> string" where
  "fractalLoopLatin1 base depth i hash =
     (if i < depth then fractalLoopLatin1 base depth (Suc i) (hash @ encodeTimesLatin1 (Suc i) base)
      else hash)"
  by pat_completeness auto
termination
  by (relation "measure (\<lambda>(base, depth, i, hash). depth - i)") auto

declare fractalLoopLatin1.simps [simp del]

definition fractalHashLatin1 :: "nat \<Rightarrow> string \<Rightarrow> nat \<Rightarrow> string" where
  "fractalHashLatin1 now seed depth =
     take 32 (base64 (fractalLoopLatin1 (seed @ natToString now) depth 0 []))"

text \<open>
  The assembler's grouping, stated directly on the fragment list: the key of a fragment,
  the fragments of a key in collection order, the distinct elements of a list in
  first-seen order, the accumulator a key has after the whole list, and the dictionary as
  the list of first-seen keys with their accumulators.
\<close>

definition groupKey :: "CandidateFragment \<Rightarrow> string" where
  "groupKey c = take 100 (candidate c)"

definition members :: "string \<Rightarrow> CandidateFragment list \<Rightarrow> CandidateFragment list" where
  "members k cs = filter (\<lambda>c. groupKey c = k) cs"

definition firstSeen :: "'a list \<Rightarrow> 'a list" where
  "firstSeen xs = fold setAdd xs []"

definition accOf :: "string \<Rightarrow> CandidateFragment list \<Rightarrow> GroupAcc" where
  "accOf k cs =
     \<lparr>accCandidates = members k cs,
      totalEntropy = sum_list (map entropy (members k cs)),
      groupAgents = firstSeen (map agentId (members k cs)),
      groupRounds = firstSeen (map roundNo (members k cs))\<rparr>"

definition groupTable :: "CandidateFragment list \<Rightarrow> (string \<times> GroupAcc) list" where
  "groupTable cs = map (\<lambda>k. (k, accOf k cs)) (firstSeen (map groupKey cs))"

definition ordinaryKeys :: "CandidateFragment list \<Rightarrow> bool" where
  "ordinaryKeys cs = list_all (\<lambda>c. groupKey c \<notin> set objectPrototypeKeys) cs"

text \<open>
  The fragment lists of the program: the assembler is a closure of the run, called once,
  with the fragments the rounds collected, and the text of each of them is written by the
  step runner, which starts it with a comment marker.
\<close>

definition commentMarked :: "CandidateFragment list \<Rightarrow> bool" where
  "commentMarked cs = list_all (\<lambda>c. take 3 (candidate c) = ''// '') cs"

text \<open>The position of the first occurrence of an element in a list.\<close>

definition firstPos :: "'a \<Rightarrow> 'a list \<Rightarrow> nat" where
  "firstPos x xs = length (takeWhile (\<lambda>y. y \<noteq> x) xs)"

text \<open>
  The order of \<open>Object.entries\<close> in the words of the language definition: of two own
  keys, an array index comes before a key that is none, two array indices are in
  ascending numeric order, and two other keys are in the order in which they were first
  inserted (\<open>keys\<close> is the list of insertions).
\<close>

definition entryBefore :: "string list \<Rightarrow> string \<Rightarrow> string \<Rightarrow> bool" where
  "entryBefore keys a b =
     (if isArrayIndex a then (isArrayIndex b \<longrightarrow> decimalValue a \<le> decimalValue b)
      else \<not> isArrayIndex b \<and> firstPos a keys < firstPos b keys)"

definition groupOf :: "string \<Rightarrow> CandidateFragment list \<Rightarrow> CandidateGroup" where
  "groupOf k cs = scoreGroup (k, accOf k cs)"

definition rankedGroups :: "CandidateFragment list \<Rightarrow> CandidateGroup list" where
  "rankedGroups cs = sortByScore (map scoreGroup (objectEntries (groupTable cs)))"

text \<open>A fragment with the fields the assembler reads, for the examples.\<close>

definition fragment :: "string \<Rightarrow> nat \<Rightarrow> string \<Rightarrow> real \<Rightarrow> CandidateFragment" where
  "fragment a r text e =
     \<lparr>agentId = a, origin = [], roundNo = r, candidate = text, entropy = e, timestamp = 0\<rparr>"

text \<open>A text of exactly 100 characters.\<close>

definition sharedPrefix :: string where
  "sharedPrefix = ''// '' @ replicate 97 (CHR ''-'')"

text \<open>
  For the round scheduler: what one successful agent step establishes about its fragment,
  given the origin the agent had before the step; and the origin an agent has before round
  \<open>k\<close>, which is its seed origin for \<open>k = 0\<close> and otherwise the origin of its fragment
  of round \<open>k - 1\<close> (\<open>rounds ! k ! j\<close> is the fragment of agent \<open>j\<close> in round \<open>k\<close>).
\<close>

definition rotated :: "Env \<Rightarrow> string \<Rightarrow> nat \<Rightarrow> string \<Rightarrow> CandidateFragment \<Rightarrow> bool" where
  "rotated env g rnd prev f =
     (env_sha256 env (prev @ g @ natToString rnd) = Inr (origin f)
      \<and> roundNo f = rnd
      \<and> entropy f = calculateEntropy (units (origin f)))"

definition originBefore :: "AgentInfo list \<Rightarrow> CandidateFragment list list \<Rightarrow> nat \<Rightarrow> nat \<Rightarrow> string" where
  "originBefore agents rounds k j =
     (if k = 0 then agent_origin (agents ! j) else origin (rounds ! (k - 1) ! j))"

text \<open>
  An environment for the examples: a digest that returns its input (so that the input of
  every digest call can be read off the result), no collaborator, a clock that stands
  still.  \<open>quotaEnv\<close> has a collaborator that answers \<open>x\<close>, except that it rejects the
  call of \<open>agent-2\<close> in round 2 (1-indexed), recognised by the first 100 characters of the
  prompt.
\<close>

definition transparentEnv :: Env where
  "transparentEnv =
     \<lparr>env_sha256 = (\<lambda>s. Inr s), env_numberToString = (\<lambda>x. []), env_ai = None,
      env_genesisTime = 0, env_seedTime = (\<lambda>i. 0), env_fragmentTime = (\<lambda>r i. 0),
      env_localeTime = (\<lambda>a k. []), env_eventId = ''event_0'',
      env_typeErrorMessage = ''TypeError'',
      env_invalidCharacterMessage = ''InvalidCharacterError'', env_promptInput = None\<rparr>"

definition quotaPrompt :: string where
  "quotaPrompt =
     ''You are an expert coding agent in a multi-agent system.'' @ nl
     @ ''Your agent ID is agent-2.'' @ nl
     @ ''You are in round 2''"

definition quotaEnv :: Env where
  "quotaEnv =
     transparentEnv
       \<lparr>env_ai := Some (\<lambda>p. if take 100 p = quotaPrompt then Inl (Error ''quota exceeded'')
                              else Inr ''x'')\<rparr>"

definition exampleContext :: RunContext where
  "exampleContext =
     \<lparr>ctx_genesisHash = ''G'', ctx_promptText = ''p'', ctx_editorContext = ''x'',
      ctx_editorLanguage = ''javascript'', ctx_reasoningDepth = 3\<rparr>"

definition exampleState :: QuantumAppState where
  "exampleState =
     \<lparr>isGenerating = False,
      settings = \<lparr>multiAgentMode = True, settingsAgentCount = 3, settingsMaxRounds = 2,
                  settingsReasoningDepth = 3\<rparr>,
      editorContent = ''x'', currentFileType = ''javascript'',
      agentStates = INITIAL_AGENTS_STATE,
      consensusResult = Some (sentinelResult ''previous''),
      showOrchestrationPanel = False, quantumConsensusCode = Some ''// previous''\<rparr>"

section \<open>The empty fragment list\<close>

text \<open>
  C3.  Given zero fragments the assembler returns, as an ordinary result and not as an
  exception, the sentinel: the placeholder text as \<open>selectedCandidate\<close>, the strings
  \<open>"0"\<close> for score, average entropy and root entropy, the counts \<open>0\<close>, root agent
  \<open>"N/A"\<close> and no groups; \<open>genesis\<close> is passed through.
\<close>

theorem assemble_empty_sentinel:
  "assembleFinalAnswer numberToString [] g =
     Inr \<lparr>genesis = g,
          selectedCandidate = ''// No valid candidates were generated by the agents.'',
          resultScore = ''0'', resultAgentCount = 0, resultRoundCount = 0,
          resultAvgEntropy = ''0'', rootAgent = ''N/A'', rootEntropy = ''0'',
          allGroups = []\<rparr>"
  by (simp add: assembleFinalAnswer_def objectEntries_def sentinelResult_def)

section \<open>Strategy selection\<close>

text \<open>
  C10.  In round \<open>0\<close> the strategy index \<open>(round * reasoningDepth) mod strategyCount\<close> is
  \<open>0\<close> whatever the reasoning depth, so the strategy every agent is assigned in the first
  round is the first of the fixed list, and it does not depend on the agent.  In the step
  runner: with a collaborator connected, the step of round \<open>0\<close> sends the prompt built with
  that first strategy and puts the same strategy in the provenance header, for every agent
  and every reasoning depth.
\<close>

theorem strategy_round_zero:
  "strategyIndex 0 reasoningDepth = 0
   \<and> REASONING_STRATEGIES ! strategyIndex 0 reasoningDepth = hd REASONING_STRATEGIES
   \<and> REASONING_STRATEGIES ! strategyIndex 0 reasoningDepth = ''Apply recursive optimization patterns''
   \<and> runOrchestrationAgentStep numberToString (Some generateContent) agent prompt editorContext 0
        editorLanguage reasoningDepth
      = (case generateContent
                (fullPrompt agent 0 ''Apply recursive optimization patterns'' prompt editorLanguage
                   (truncateContext editorContext)) of
           Inl error \<Rightarrow> Inl error
         | Inr response \<Rightarrow>
             Inr (provenance numberToString agent 0 ''Apply recursive optimization patterns''
                  @ stripCodeBlock response))"
  by (simp add: strategyIndex_def REASONING_STRATEGIES_def runOrchestrationAgentStep_def Let_def
        split: sum.split)

section \<open>Code units\<close>

lemma isLatin1_units [simp]: "isLatin1 (units s)"
  by (simp add: isLatin1_def units_def list_all_iff)

lemma char_of_units [simp]: "map char_of (units s) = s"
  by (induction s) (simp_all add: units_def)


lemma units_append: "units (a @ b) = units a @ units b"
  by (simp add: units_def)

lemma units_Nil [simp]: "units [] = []"
  by (simp add: units_def)

lemma length_units [simp]: "length (units s) = length s"
  by (simp add: units_def)

section \<open>Entropy\<close>

lemma foldl_minus_sum:
  "foldl (\<lambda>e (k, n). e - g n) (e0::real) xs = e0 - sum_list (map (\<lambda>(k, n). g n) xs)"
  by (induction xs arbitrary: e0) (auto simp: algebra_simps)

lemma mset_objectEntries: "mset (objectEntries xs) = mset xs"
  by (simp add: objectEntries_def)

lemma mset_forInEntries: "mset (forInEntries xs) = mset xs"
  by (simp add: forInEntries_def)

lemma sum_list_forInEntries:
  "sum_list (map f (forInEntries xs)) = (sum_list (map f xs) :: real)"
proof -
  have "sum_mset (image_mset f (mset (forInEntries xs))) = sum_mset (image_mset f (mset xs))"
    by (simp only: mset_forInEntries)
  then show ?thesis
    by (metis mset_map sum_mset_sum_list)
qed

lemma map_fst_update:
  "map fst (map (\<lambda>(k, v). if k = a then (k, w) else (k, v)) xs) = map fst xs"
  by (induction xs) auto

lemma length_codePoints: "length (codePoints s) \<le> length s"
  by (induction s rule: codePoints.induct) auto

text \<open>A string without a high surrogate has one character for each code unit.\<close>

lemma codePoints_single:
  "list_all (\<lambda>u. \<not> isHighSurrogate u) s \<Longrightarrow> codePoints s = map (\<lambda>u. [u]) s"
  by (induction s rule: codePoints.induct) simp_all

lemma codePoints_units: "codePoints (units s) = map (\<lambda>c. [of_char c]) s"
proof -
  have "u < 256" if "u \<in> set (units s)" for u
    using that isLatin1_units[of s] by (simp add: isLatin1_def list_all_iff)
  then have "list_all (\<lambda>u. \<not> isHighSurrogate u) (units s)"
    by (fastforce simp: list_all_iff isHighSurrogate_def)
  then have "codePoints (units s) = map (\<lambda>u. [u]) (units s)"
    by (rule codePoints_single)
  then show ?thesis by (simp add: units_def comp_def)
qed

text \<open>
  The count table holds each distinct character once, with the number of its
  occurrences.
\<close>

lemma counts_inv:
  "distinct (map fst (foldl countChar [] ks)) \<and>
   set (foldl countChar [] ks) = (\<lambda>k. (k, count_list ks k)) ` set ks"
proof (induction ks rule: rev_induct)
  case Nil
  show ?case by simp
next
  case (snoc c ks)
  let ?t = "foldl countChar [] ks"
  have d: "distinct (map fst ?t)" and st: "set ?t = (\<lambda>k. (k, count_list ks k)) ` set ks"
    using snoc by auto
  show ?case
  proof (cases "c \<in> set ks")
    case False
    have notin: "c \<notin> fst ` set ?t" using st False by auto
    then have none: "map_of ?t c = None" by (simp add: map_of_eq_None_iff)
    have eq: "foldl countChar [] (ks @ [c]) = ?t @ [(c, 1)]"
      by (simp add: countChar_def none)
    show ?thesis
      unfolding eq using d st False notin
      by (auto simp: image_iff)
  next
    case True
    then have mem: "(c, count_list ks c) \<in> set ?t" using st by auto
    then have some: "map_of ?t c = Some (count_list ks c)" using d by simp
    have eq: "foldl countChar [] (ks @ [c]) =
        map (\<lambda>(k, v). if k = c then (k, count_list ks c + 1) else (k, v)) ?t"
      by (simp add: countChar_def some)
    show ?thesis
      unfolding eq
    proof
      show "distinct (map fst (map (\<lambda>(k, v). if k = c then (k, count_list ks c + 1) else (k, v)) ?t))"
        using d by (simp only: map_fst_update)
      show "set (map (\<lambda>(k, v). if k = c then (k, count_list ks c + 1) else (k, v)) ?t)
            = (\<lambda>k. (k, count_list (ks @ [c]) k)) ` set (ks @ [c])"
        using st True by (auto simp: image_iff split: if_splits)
    qed
  qed
qed

lemma countTable_counts:
  assumes "(k, n) \<in> set (countTable s)"
  shows "1 \<le> n \<and> n \<le> length s"
proof -
  from assms counts_inv[of "codePoints s"] obtain c where
    c: "c \<in> set (codePoints s)" "n = count_list (codePoints s) c"
    by (auto simp: countTable_def)
  have "count_list (codePoints s) c \<le> length (codePoints s)" by (rule count_le_length)
  then have "count_list (codePoints s) c \<le> length s"
    using length_codePoints[of s] by simp
  moreover have "0 < count_list (codePoints s) c"
    using c(1) count_list_0_iff[of "codePoints s" c] by auto
  ultimately show ?thesis using c(2) by simp
qed

lemma calculateEntropy_sum_list:
  "calculateEntropy s = - sum_list (map (\<lambda>(k, n). plogp (length s) n) (countTable s))"
proof -
  have "calculateEntropy s =
      foldl (\<lambda>e (k, n). e - plogp (length s) n) 0 (forInEntries (countTable s))"
    by (simp add: calculateEntropy_def plogp_def Let_def)
  also have "\<dots> = 0 - sum_list (map (\<lambda>(k, n). plogp (length s) n) (forInEntries (countTable s)))"
    by (rule foldl_minus_sum)
  also have "\<dots> = - sum_list (map (\<lambda>(k, n). plogp (length s) n) (countTable s))"
    by (simp add: sum_list_forInEntries)
  finally show ?thesis .
qed

lemma plogp_nonpos:
  assumes "1 \<le> n" "n \<le> len"
  shows "plogp len n \<le> 0"
proof -
  have p: "0 < real n / real len" "real n / real len \<le> 1" using assms by auto
  then have "log 2 (real n / real len) \<le> 0" by simp
  with p(1) have "(real n / real len) * log 2 (real n / real len) \<le> 0"
    by (intro mult_nonneg_nonpos) simp_all
  then show ?thesis unfolding plogp_def .
qed

lemma calculateEntropy_nonneg: "0 \<le> calculateEntropy s"
proof -
  have "sum_list (map (\<lambda>(k, n). plogp (length s) n) (countTable s)) \<le> 0"
    by (rule sum_list_nonpos) (auto dest: countTable_counts intro: plogp_nonpos)
  then show ?thesis by (simp add: calculateEntropy_sum_list)
qed

text \<open>
  What the code computes on any string: the sum over the distinct characters of
  \<open>- p * log2 p\<close>, where \<open>p\<close> is the number of occurrences of the character divided by
  the number of code units of the string.
\<close>

lemma calculateEntropy_characters:
  "calculateEntropy s
     = (\<Sum>c\<in>set (codePoints s). - plogp (length s) (count_list (codePoints s) c))"
proof -
  have dist: "distinct (countTable s)"
    using counts_inv[of "codePoints s"] by (auto simp: distinct_map countTable_def)
  have inj: "inj_on (\<lambda>c. (c, count_list (codePoints s) c)) (set (codePoints s))"
    by (rule inj_onI) simp
  have "sum_list (map (\<lambda>(k, n). plogp (length s) n) (countTable s))
      = sum (\<lambda>(k, n). plogp (length s) n) (set (countTable s))"
    using dist by (simp add: sum_list_distinct_conv_sum_set)
  also have "\<dots> = sum (\<lambda>(k, n). plogp (length s) n)
                      ((\<lambda>c. (c, count_list (codePoints s) c)) ` set (codePoints s))"
    using counts_inv[of "codePoints s"] by (simp add: countTable_def)
  also have "\<dots> = (\<Sum>c\<in>set (codePoints s). plogp (length s) (count_list (codePoints s) c))"
    using inj by (simp add: sum.reindex)
  finally show ?thesis
    by (simp add: calculateEntropy_sum_list sum_negf)
qed

lemma calculateEntropy_shannon:
  assumes "length (codePoints s) = length s"
  shows "calculateEntropy s = shannonEntropy (codePoints s)"
  by (simp add: calculateEntropy_characters shannonEntropy_def frequency_def plogp_def assms)

lemma count_list_map_inj:
  assumes "inj f"
  shows "count_list (map f xs) (f x) = count_list xs x"
  using assms by (induction xs) (auto dest: injD)

lemma shannonEntropy_map:
  assumes "inj f"
  shows "shannonEntropy (map f xs) = shannonEntropy xs"
proof -
  have "inj_on f (set xs)" using assms by (rule inj_on_subset) simp
  then show ?thesis
    by (simp add: shannonEntropy_def frequency_def sum.reindex count_list_map_inj[OF assms])
qed

lemma calculateEntropy_latin1: "calculateEntropy (units s) = shannonEntropy s"
proof -
  have "length (codePoints (units s)) = length (units s)"
    by (simp add: codePoints_units)
  then have "calculateEntropy (units s) = shannonEntropy (codePoints (units s))"
    by (rule calculateEntropy_shannon)
  also have "\<dots> = shannonEntropy (map (\<lambda>c. [of_char c :: nat]) s)"
    by (simp only: codePoints_units)
  also have "\<dots> = shannonEntropy s"
    by (rule shannonEntropy_map) (simp add: inj_def)
  finally show ?thesis .
qed

lemma calculateEntropy_examples:
  "calculateEntropy [] = 0" "calculateEntropy (units ''aaaa'') = 0"
  "calculateEntropy (units ''ab'') = 1"
proof -
  show "calculateEntropy [] = 0"
    by (simp add: calculateEntropy_def countTable_def forInEntries_def)
  show "calculateEntropy (units ''aaaa'') = 0"
    by (simp add: calculateEntropy_latin1 shannonEntropy_def frequency_def)
  show "calculateEntropy (units ''ab'') = 1"
    by (simp add: calculateEntropy_latin1 shannonEntropy_def frequency_def log_divide)
qed

text \<open>
  A string with one astral character, U+1F600: one character of two code units.  Its
  count is divided by the two code units, which gives \<open>1/2\<close>, while the distribution of
  the one character has entropy \<open>0\<close>.  The program computes the entropy of hexadecimal
  digests only.
\<close>

lemma calculateEntropy_astral:
  "codePoints [0xD83D, 0xDE00] = [[0xD83D, 0xDE00]]"
  "calculateEntropy [0xD83D, 0xDE00] = 1 / 2"
  "shannonEntropy (codePoints [0xD83D, 0xDE00]) = 0"
proof -
  have hs: "isHighSurrogate 0xD83D" unfolding isHighSurrogate_def by simp
  have ls: "isLowSurrogate 0xDE00" unfolding isLowSurrogate_def by simp
  show "codePoints [0xD83D, 0xDE00] = [[0xD83D, 0xDE00]]"
    by (simp add: hs ls)
  show "calculateEntropy [0xD83D, 0xDE00] = 1 / 2"
    by (simp add: calculateEntropy_characters hs ls plogp_def log_divide)
  show "shannonEntropy (codePoints [0xD83D, 0xDE00]) = 0"
    by (simp add: hs ls shannonEntropy_def frequency_def)
qed

text \<open>
  C8.  \<open>calculateEntropy\<close> is a total function into the reals, with no failure mode.
  On every string its value is never negative; it is \<open>0\<close> on the empty string and on
  \<open>aaaa\<close> and exactly \<open>1\<close> on \<open>ab\<close>.  On every string it is the sum of
  \<open>- p * log2 p\<close> over the distinct characters, where \<open>p\<close> is the number of
  occurrences of the character divided by the number of code units of the string.  On
  every string in which each character is one code unit (no surrogate pair), so on every
  Latin-1 string and on the hexadecimal digests the program passes, \<open>p\<close> is the relative
  frequency of the character and the value is the Shannon entropy in bits of the
  character-frequency distribution.
\<close>

theorem calculateEntropy_is_shannon_entropy:
  "0 \<le> calculateEntropy hash
   \<and> calculateEntropy [] = 0
   \<and> calculateEntropy (units ''aaaa'') = 0
   \<and> calculateEntropy (units ''ab'') = 1
   \<and> calculateEntropy hash
       = (\<Sum>c\<in>set (codePoints hash).
            - (real (count_list (codePoints hash) c) / real (length hash))
              * log 2 (real (count_list (codePoints hash) c) / real (length hash)))
   \<and> (length (codePoints hash) = length hash
        \<longrightarrow> calculateEntropy hash = shannonEntropy (codePoints hash))
   \<and> calculateEntropy (units s) = shannonEntropy s"
proof -
  have "calculateEntropy hash
       = (\<Sum>c\<in>set (codePoints hash).
            - (real (count_list (codePoints hash) c) / real (length hash))
              * log 2 (real (count_list (codePoints hash) c) / real (length hash)))"
    by (simp add: calculateEntropy_characters plogp_def)
  then show ?thesis
    using calculateEntropy_nonneg[of hash] calculateEntropy_examples
      calculateEntropy_shannon[of hash] calculateEntropy_latin1[of s]
    by blast
qed

text \<open>
  The digest prefix \<open>9f86d081\<close>: eight characters of which \<open>8\<close> occurs twice, entropy
  \<open>2.75\<close> bits.
\<close>

theorem calculateEntropy_is_shannon_entropy_witness:
  "length (codePoints (units ''9f86d081'')) = length (units ''9f86d081'')
   \<and> calculateEntropy (units ''9f86d081'') = shannonEntropy (codePoints (units ''9f86d081''))
   \<and> calculateEntropy (units ''9f86d081'') = 11 / 4"
proof -
  have h: "length (codePoints (units ''9f86d081'')) = length (units ''9f86d081'')"
    by (simp add: codePoints_units)
  from calculateEntropy_is_shannon_entropy[of "units ''9f86d081''" "''9f86d081''"] h
  have a: "calculateEntropy (units ''9f86d081'') = shannonEntropy (codePoints (units ''9f86d081''))"
    and b: "calculateEntropy (units ''9f86d081'') = shannonEntropy ''9f86d081''"
    by blast+
  have st: "set ''9f86d081''
      = {CHR ''9'', CHR ''f'', CHR ''8'', CHR ''6'', CHR ''d'', CHR ''0'', CHR ''1''}"
    by auto
  have l8: "log 2 8 = 3" using log_pow_cancel[of 2 3] by simp
  have l4: "log 2 4 = 2" using log_pow_cancel[of 2 2] by simp
  have c: "shannonEntropy ''9f86d081'' = 11 / 4"
    unfolding shannonEntropy_def st
    by (simp add: frequency_def log_divide l8 l4)
  from h a b c show ?thesis by simp
qed

section \<open>Evaluation of the printers\<close>

lemma natToString_numeral:
  "natToString (numeral k) =
     (if numeral k < (10::nat) then [digitChar (numeral k)]
      else natToString (numeral k div 10) @ [digitChar (numeral k mod 10)])"
  by (rule natToString.simps)

lemma natToString_small:
  "natToString 0 = ''0''" "natToString 1 = ''1''" "natToString (Suc 0) = ''1''"
  by (simp_all add: natToString.simps digitChar_def)

lemmas eval_simps = natToString_numeral natToString_small digitChar_def b64Char_def b64Alphabet_def
  fractalHashLatin1_def fractalLoopLatin1.simps Let_def

lemma natToString_two: "natToString (Suc (Suc 0)) = ''2''" "natToString 2 = ''2''"
  by (simp_all add: natToString.simps digitChar_def numeral_2_eq_2)

lemma replicate_small: "replicate 2 x = [x, x]" "replicate 3 x = [x, x, x]"
  by (simp_all add: numeral_2_eq_2 numeral_3_eq_3)

lemma toFixed_examples:
  "toFixed nts 3 0 = ''0.000''" "toFixed nts 3 1 = ''1.000''" "toFixed nts 3 (7/2) = ''3.500''"
  "toFixed nts 3 (29/2) = ''14.500''" "toFixed nts 3 (5/2) = ''2.500''" "toFixed nts 3 3 = ''3.000''"
  "toFixed nts 3 2 = ''2.000''" "toFixed nts 3 (13/2) = ''6.500''" "toFixed nts 3 (19/2) = ''9.500''"
  "toFixed nts 3 4 = ''4.000''" "toFixed nts 3 18 = ''18.000''"
  by (simp_all add: toFixed_def eval_simps replicate_small)

section \<open>The fractal hash\<close>









text \<open>
  On the code units of a Latin-1 string no call of \<open>btoa\<close> throws, and the loops are those
  on \<^typ>\<open>string\<close>.
\<close>

lemma btoa_units [simp]: "btoa (units s) = Inr (base64 s)"
  by (simp add: btoa_def)

lemma encodeTimes_units: "encodeTimes n (units s) = Inr (units (encodeTimesLatin1 n s))"
  by (induction n arbitrary: s) simp_all

lemma fractalLoop_units:
  "fractalLoop (units base) depth i (units hash)
     = Inr (units (fractalLoopLatin1 base depth i hash))"
proof (induction "depth - i" arbitrary: i hash)
  case 0
  then show ?case by (simp add: fractalLoop.simps fractalLoopLatin1.simps)
next
  case (Suc d)
  then have lt: "i < depth" and d: "d = depth - Suc i" by auto
  have "fractalLoop (units base) depth i (units hash)
          = fractalLoop (units base) depth (Suc i) (units (hash @ encodeTimesLatin1 (Suc i) base))"
    using lt by (subst fractalLoop.simps) (simp add: encodeTimes_units units_append del: encodeTimes.simps)
  also have "\<dots> = Inr (units (fractalLoopLatin1 base depth (Suc i) (hash @ encodeTimesLatin1 (Suc i) base)))"
    using d by (rule Suc.hyps(1))
  also have "fractalLoopLatin1 base depth (Suc i) (hash @ encodeTimesLatin1 (Suc i) base)
               = fractalLoopLatin1 base depth i hash"
    using lt by (subst (2) fractalLoopLatin1.simps) simp
  finally show ?case .
qed

lemma generateFractalHash_units:
  "generateFractalHash now (units seed) depth = Inr (fractalHashLatin1 now seed depth)"
proof -
  have "fractalLoop (units (seed @ natToString now)) depth 0 (units [])
          = Inr (units (fractalLoopLatin1 (seed @ natToString now) depth 0 []))"
    by (rule fractalLoop_units)
  then show ?thesis
    by (simp add: generateFractalHash_def fractalHashLatin1_def units_append)
qed




text \<open>
  Outside that domain the clock reading shows: with the empty seed, two calls with depth 3
  made 10 milliseconds apart return different strings.  No seed of the program is that
  short.
\<close>

lemma generateFractalHash_short_seed:
  "generateFractalHash 1700000000000 [] 3 \<noteq> generateFractalHash 1700000000010 [] 3"
proof -
  have "fractalHashLatin1 1700000000000 [] 3 \<noteq> fractalHashLatin1 1700000000010 [] 3"
    by (simp add: eval_simps)
  then show ?thesis
    using generateFractalHash_units[of 1700000000000 "[]" 3]
      generateFractalHash_units[of 1700000000010 "[]" 3]
    by simp
qed

section \<open>The agent step\<close>

lemma not_word_nl: "\<not> isWordChar (CHR 0x0A)"
  by (simp add: isWordChar_def)

lemma length_fence: "length fence = 3"
  by (simp add: fence_def)

lemma matchCodeBlock_fenced:
  assumes "list_all isWordChar lang"
  shows "matchCodeBlock (fence @ lang @ nl @ body @ nl @ fence) = Some body"
proof -
  have dw: "dropWhile isWordChar (lang @ CHR 0x0A # body @ CHR 0x0A # fence)
      = CHR 0x0A # body @ CHR 0x0A # fence"
    using assms not_word_nl by (simp add: dropWhile_append3 list_all_iff)
  show ?thesis
    by (simp add: matchCodeBlock_def length_fence nl_def dw)
qed

lemma matchCodeBlock_Some:
  assumes "matchCodeBlock s = Some body"
  shows "\<exists>lang. list_all isWordChar lang \<and> s = fence @ lang @ nl @ body @ nl @ fence"
proof -
  from assms have t3: "take 3 s = fence"
    by (auto simp: matchCodeBlock_def split: if_splits)
  from assms t3 obtain rest where
    dw: "dropWhile isWordChar (drop 3 s) = CHR 0x0A # rest"
    and len: "4 \<le> length rest"
    and tl: "drop (length rest - 4) rest = CHR 0x0A # fence"
    and body: "body = take (length rest - 4) rest"
    by (auto simp: matchCodeBlock_def split: if_splits list.splits)
  let ?lang = "takeWhile isWordChar (drop 3 s)"
  have r: "rest = body @ CHR 0x0A # fence"
    using append_take_drop_id[of "length rest - 4" rest] tl body by simp
  have "drop 3 s = ?lang @ dropWhile isWordChar (drop 3 s)" by simp
  then have d: "drop 3 s = ?lang @ CHR 0x0A # body @ CHR 0x0A # fence"
    using dw r by simp
  have "s = take 3 s @ drop 3 s" by simp
  then have "s = fence @ ?lang @ CHR 0x0A # body @ CHR 0x0A # fence"
    using t3 d by simp
  moreover have "list_all isWordChar ?lang"
    by (simp add: list_all_iff) (metis set_takeWhileD)
  ultimately show ?thesis by (auto simp: nl_def)
qed

lemma stripCodeBlock_fenced:
  assumes "list_all isWordChar lang" "trim response = fence @ lang @ nl @ body @ nl @ fence" "body \<noteq> []"
  shows "stripCodeBlock response = trim body"
  using assms by (simp add: stripCodeBlock_def matchCodeBlock_fenced)

lemma stripCodeBlock_other:
  assumes "\<not> (\<exists>lang body. list_all isWordChar lang \<and> body \<noteq> []
                \<and> trim response = fence @ lang @ nl @ body @ nl @ fence)"
  shows "stripCodeBlock response = trim response"
proof (cases "matchCodeBlock (trim response)")
  case None
  then show ?thesis by (simp add: stripCodeBlock_def)
next
  case (Some body)
  show ?thesis
  proof (cases "body = []")
    case True
    then show ?thesis using Some by (simp add: stripCodeBlock_def)
  next
    case False
    from matchCodeBlock_Some[OF Some] False assms show ?thesis by blast
  qed
qed

text \<open>
  C9, as the code has it.  When the collaborator answers, the result of the step is the
  two provenance comment lines (agent id, 1-indexed round and strategy on the first; the
  first 12 characters of the origin and the origin's entropy to three decimals on the
  second) followed by \<open>stripCodeBlock\<close> of the response.  If the trimmed response is a fence,
  an optional run of word characters, a line feed, a non-empty body, a line feed and a
  fence, \<open>stripCodeBlock\<close> returns the body trimmed of surrounding white space; every
  other response, a fence around an empty body included, is returned unchanged after
  trimming.
\<close>

theorem agent_step_success:
  assumes "generateContent
             (fullPrompt agent rnd (REASONING_STRATEGIES ! strategyIndex rnd depth) prompt lang
                (truncateContext editorContext)) = Inr response"
  shows "runOrchestrationAgentStep numberToString (Some generateContent) agent prompt editorContext rnd lang depth
           = Inr (''// Agent: '' @ agent_id agent @ '' | Round: '' @ natToString (rnd + 1)
                  @ '' | Strategy: '' @ REASONING_STRATEGIES ! strategyIndex rnd depth @ nl
                  @ ''// Seed: '' @ take 12 (agent_origin agent) @ '' | Entropy: ''
                  @ toFixed numberToString 3 (calculateEntropy (units (agent_origin agent))) @ nl
                  @ stripCodeBlock response)
         \<and> (\<forall>l body. list_all isWordChar l \<and> trim response = fence @ l @ nl @ body @ nl @ fence
                \<and> body \<noteq> [] \<longrightarrow> stripCodeBlock response = trim body)
         \<and> ((\<nexists>l body. list_all isWordChar l \<and> body \<noteq> []
                  \<and> trim response = fence @ l @ nl @ body @ nl @ fence)
                \<longrightarrow> stripCodeBlock response = trim response)"
proof (intro conjI allI impI)
  show "runOrchestrationAgentStep numberToString (Some generateContent) agent prompt editorContext rnd lang depth
           = Inr (''// Agent: '' @ agent_id agent @ '' | Round: '' @ natToString (rnd + 1)
                  @ '' | Strategy: '' @ REASONING_STRATEGIES ! strategyIndex rnd depth @ nl
                  @ ''// Seed: '' @ take 12 (agent_origin agent) @ '' | Entropy: ''
                  @ toFixed numberToString 3 (calculateEntropy (units (agent_origin agent))) @ nl
                  @ stripCodeBlock response)"
    using assms by (simp add: runOrchestrationAgentStep_def provenance_def Let_def)
next
  fix l body
  assume "list_all isWordChar l \<and> trim response = fence @ l @ nl @ body @ nl @ fence \<and> body \<noteq> []"
  then have "list_all isWordChar l" "trim response = fence @ l @ nl @ body @ nl @ fence" "body \<noteq> []"
    by simp_all
  then show "stripCodeBlock response = trim body"
    by (rule stripCodeBlock_fenced)
next
  assume "\<nexists>l body. list_all isWordChar l \<and> body \<noteq> []
              \<and> trim response = fence @ l @ nl @ body @ nl @ fence"
  then show "stripCodeBlock response = trim response"
    by (rule stripCodeBlock_other)
qed

text \<open>
  Two steps: a fenced response with an indented body in round 0, and a plain response with
  surrounding blanks in round 1.
\<close>

theorem agent_step_success_witness:
  "runOrchestrationAgentStep (\<lambda>x. [])
     (Some (\<lambda>p. Inr (fence @ ''js'' @ nl @ ''    return 1;'' @ nl @ fence)))
     \<lparr>agent_id = ''agent-0'', agent_origin = ''ab''\<rparr> ''sort'' ''let x;'' 0 ''javascript'' 3
   = Inr (''// Agent: agent-0 | Round: 1 | Strategy: Apply recursive optimization patterns'' @ nl
          @ ''// Seed: ab | Entropy: 1.000'' @ nl
          @ ''return 1;'')
   \<and> runOrchestrationAgentStep (\<lambda>x. []) (Some (\<lambda>p. Inr ''  return 2;  ''))
     \<lparr>agent_id = ''agent-1'', agent_origin = ''aaaa''\<rparr> ''sort'' ''let x;'' 1 ''javascript'' 3
   = Inr (''// Agent: agent-1 | Round: 2 | Strategy: Apply hyperthreaded reasoning'' @ nl
          @ ''// Seed: aaaa | Entropy: 0.000'' @ nl
          @ ''return 2;'')"
proof -
  let ?R = "fence @ ''js'' @ nl @ ''    return 1;'' @ nl @ fence"
  note t = agent_step_success [where generateContent = "\<lambda>p. Inr ?R" and response = "?R"
      and agent = "\<lparr>agent_id = ''agent-0'', agent_origin = ''ab''\<rparr>" and rnd = 0 and depth = 3
      and prompt = "''sort''" and lang = "''javascript''" and editorContext = "''let x;''"
      and numberToString = "\<lambda>x. []", OF refl]
  have tr: "trim ?R = fence @ ''js'' @ nl @ ''    return 1;'' @ nl @ fence"
    by (simp add: trim_def fence_def nl_def isWhiteSpace_def)
  have w: "list_all isWordChar ''js''"
    by (simp add: isWordChar_def)
  from t tr w have s: "stripCodeBlock ?R = trim ''    return 1;''"
    by blast
  have tb: "trim ''    return 1;'' = ''return 1;''"
    by (simp add: trim_def isWhiteSpace_def)
  from t have r: "runOrchestrationAgentStep (\<lambda>x. []) (Some (\<lambda>p. Inr ?R))
     \<lparr>agent_id = ''agent-0'', agent_origin = ''ab''\<rparr> ''sort'' ''let x;'' 0 ''javascript'' 3
     = Inr (''// Agent: '' @ agent_id \<lparr>agent_id = ''agent-0'', agent_origin = ''ab''\<rparr> @ '' | Round: '' @ natToString (0 + 1)
                  @ '' | Strategy: '' @ REASONING_STRATEGIES ! strategyIndex 0 3 @ nl
                  @ ''// Seed: '' @ take 12 (agent_origin \<lparr>agent_id = ''agent-0'', agent_origin = ''ab''\<rparr>) @ '' | Entropy: ''
                  @ toFixed (\<lambda>x. []) 3 (calculateEntropy (units (agent_origin \<lparr>agent_id = ''agent-0'', agent_origin = ''ab''\<rparr>))) @ nl
                  @ stripCodeBlock ?R)"
    by (rule conjunct1)
  have first: "runOrchestrationAgentStep (\<lambda>x. []) (Some (\<lambda>p. Inr ?R))
     \<lparr>agent_id = ''agent-0'', agent_origin = ''ab''\<rparr> ''sort'' ''let x;'' 0 ''javascript'' 3
   = Inr (''// Agent: agent-0 | Round: 1 | Strategy: Apply recursive optimization patterns'' @ nl
          @ ''// Seed: ab | Entropy: 1.000'' @ nl
          @ ''return 1;'')"
    unfolding r s tb
    by (simp add: strategyIndex_def REASONING_STRATEGIES_def calculateEntropy_examples toFixed_examples
          natToString_small nl_def)
  let ?P = "''  return 2;  ''"
  note u = agent_step_success [where generateContent = "\<lambda>p. Inr ?P" and response = "?P"
      and agent = "\<lparr>agent_id = ''agent-1'', agent_origin = ''aaaa''\<rparr>" and rnd = 1 and depth = 3
      and prompt = "''sort''" and lang = "''javascript''" and editorContext = "''let x;''"
      and numberToString = "\<lambda>x. []", OF refl]
  have tp: "trim ?P = ''return 2;''"
    by (simp add: trim_def isWhiteSpace_def)
  have nf: "\<nexists>l body. list_all isWordChar l \<and> body \<noteq> []
                \<and> trim ?P = fence @ l @ nl @ body @ nl @ fence"
    unfolding tp by (simp add: fence_def)
  from u nf have sp: "stripCodeBlock ?P = trim ?P"
    by blast
  from u have r2: "runOrchestrationAgentStep (\<lambda>x. []) (Some (\<lambda>p. Inr ?P))
     \<lparr>agent_id = ''agent-1'', agent_origin = ''aaaa''\<rparr> ''sort'' ''let x;'' 1 ''javascript'' 3
     = Inr (''// Agent: '' @ agent_id \<lparr>agent_id = ''agent-1'', agent_origin = ''aaaa''\<rparr> @ '' | Round: '' @ natToString (1 + 1)
                  @ '' | Strategy: '' @ REASONING_STRATEGIES ! strategyIndex 1 3 @ nl
                  @ ''// Seed: '' @ take 12 (agent_origin \<lparr>agent_id = ''agent-1'', agent_origin = ''aaaa''\<rparr>) @ '' | Entropy: ''
                  @ toFixed (\<lambda>x. []) 3 (calculateEntropy (units (agent_origin \<lparr>agent_id = ''agent-1'', agent_origin = ''aaaa''\<rparr>))) @ nl
                  @ stripCodeBlock ?P)"
    by (rule conjunct1)
  have second: "runOrchestrationAgentStep (\<lambda>x. []) (Some (\<lambda>p. Inr ?P))
     \<lparr>agent_id = ''agent-1'', agent_origin = ''aaaa''\<rparr> ''sort'' ''let x;'' 1 ''javascript'' 3
   = Inr (''// Agent: agent-1 | Round: 2 | Strategy: Apply hyperthreaded reasoning'' @ nl
          @ ''// Seed: aaaa | Entropy: 0.000'' @ nl
          @ ''return 2;'')"
    unfolding r2 sp tp
    by (simp add: strategyIndex_def REASONING_STRATEGIES_def calculateEntropy_examples toFixed_examples
          natToString_two nl_def)
  from first second show ?thesis by (rule conjI)
qed

text \<open>
  A fenced response whose body is indented: the result is not just the body, its leading
  white space is gone.  A fence around an empty body: the result is not the body but the
  whole response.  A fence whose language is not a run of word characters: the result is
  the whole response.  A fence between blanks: the response is trimmed first, and the
  result is the body.  And the header of a step's result is two comment lines, the
  first with the agent id, the round and the strategy, the second with the seed and the
  entropy.
\<close>

theorem stripCodeBlock_body_counterexample:
  "stripCodeBlock (fence @ ''js'' @ nl @ ''    return 1;'' @ nl @ fence) = ''return 1;''
   \<and> stripCodeBlock (fence @ ''js'' @ nl @ ''    return 1;'' @ nl @ fence) \<noteq> ''    return 1;''
   \<and> stripCodeBlock (fence @ ''js'' @ nl @ [] @ nl @ fence) = fence @ ''js'' @ nl @ nl @ fence
   \<and> stripCodeBlock (fence @ ''js'' @ nl @ [] @ nl @ fence) \<noteq> []
   \<and> stripCodeBlock (fence @ ''c++'' @ nl @ ''x'' @ nl @ fence) = fence @ ''c++'' @ nl @ ''x'' @ nl @ fence
   \<and> stripCodeBlock (fence @ ''c++'' @ nl @ ''x'' @ nl @ fence) \<noteq> ''x''
   \<and> stripCodeBlock (''  '' @ fence @ ''js'' @ nl @ ''x'' @ nl @ fence @ ''  '') = ''x''
   \<and> runOrchestrationAgentStep (\<lambda>x. [])
        (Some (\<lambda>p. Inr (fence @ ''js'' @ nl @ ''    return 1;'' @ nl @ fence)))
        \<lparr>agent_id = ''agent-0'', agent_origin = ''ab''\<rparr> ''sort'' ''let x;'' 0 ''javascript'' 3
      = Inr (''// Agent: agent-0 | Round: 1 | Strategy: Apply recursive optimization patterns''
             @ [CHR 0x0A] @ ''// Seed: ab | Entropy: 1.000'' @ [CHR 0x0A] @ ''return 1;'')"
proof -
  have a: "stripCodeBlock (fence @ ''js'' @ nl @ ''    return 1;'' @ nl @ fence) = ''return 1;''"
    by (simp add: stripCodeBlock_def matchCodeBlock_def trim_def fence_def nl_def isWhiteSpace_def
          isWordChar_def)
  have b: "stripCodeBlock (fence @ ''js'' @ nl @ [] @ nl @ fence) = fence @ ''js'' @ nl @ nl @ fence"
    by (simp add: stripCodeBlock_def matchCodeBlock_def trim_def fence_def nl_def isWhiteSpace_def
          isWordChar_def)
  have c: "stripCodeBlock (fence @ ''c++'' @ nl @ ''x'' @ nl @ fence)
             = fence @ ''c++'' @ nl @ ''x'' @ nl @ fence"
    by (simp add: stripCodeBlock_def matchCodeBlock_def trim_def fence_def nl_def isWhiteSpace_def
          isWordChar_def)
  have d: "runOrchestrationAgentStep (\<lambda>x. [])
        (Some (\<lambda>p. Inr (fence @ ''js'' @ nl @ ''    return 1;'' @ nl @ fence)))
        \<lparr>agent_id = ''agent-0'', agent_origin = ''ab''\<rparr> ''sort'' ''let x;'' 0 ''javascript'' 3
      = Inr (''// Agent: agent-0 | Round: 1 | Strategy: Apply recursive optimization patterns''
             @ [CHR 0x0A] @ ''// Seed: ab | Entropy: 1.000'' @ [CHR 0x0A] @ ''return 1;'')"
  proof -
    have "runOrchestrationAgentStep (\<lambda>x. [])
        (Some (\<lambda>p. Inr (fence @ ''js'' @ nl @ ''    return 1;'' @ nl @ fence)))
        \<lparr>agent_id = ''agent-0'', agent_origin = ''ab''\<rparr> ''sort'' ''let x;'' 0 ''javascript'' 3
      = Inr (provenance (\<lambda>x. []) \<lparr>agent_id = ''agent-0'', agent_origin = ''ab''\<rparr> 0
               (REASONING_STRATEGIES ! strategyIndex 0 3) @ ''return 1;'')"
      by (simp only: runOrchestrationAgentStep_def Let_def option.case sum.case a)
    then show ?thesis
      by (simp add: provenance_def strategyIndex_def REASONING_STRATEGIES_def
            calculateEntropy_examples toFixed_examples natToString_small nl_def)
  qed
  have e: "stripCodeBlock (''  '' @ fence @ ''js'' @ nl @ ''x'' @ nl @ fence @ ''  '') = ''x''"
    by (simp add: stripCodeBlock_def matchCodeBlock_def trim_def fence_def nl_def isWhiteSpace_def
          isWordChar_def)
  have a': "stripCodeBlock (fence @ ''js'' @ nl @ ''    return 1;'' @ nl @ fence) \<noteq> ''    return 1;''"
    unfolding a by simp
  have b': "stripCodeBlock (fence @ ''js'' @ nl @ [] @ nl @ fence) \<noteq> []"
    unfolding b by (simp add: fence_def)
  have c': "stripCodeBlock (fence @ ''c++'' @ nl @ ''x'' @ nl @ fence) \<noteq> ''x''"
    unfolding c by (simp add: fence_def)
  from a a' b b' c c' e d show ?thesis by (intro conjI)
qed

section \<open>The consensus assembler\<close>

lemmas assemble_eval = assembleFinalAnswer_def addCandidate_def objectPrototypeKeys_def
  pushCandidate_def emptyGroup_def setAdd_def objectEntries_def scoreGroup_def sortByScore_def rootCandidateOf_def fragment_def
  Let_def

lemma length_sharedPrefix: "length sharedPrefix = 100"
  by (simp add: sharedPrefix_def)

lemma take_sharedPrefix: "take 100 sharedPrefix = sharedPrefix"
  by (simp add: length_sharedPrefix)

lemma sharedPrefix_ordinary: "sharedPrefix \<notin> set objectPrototypeKeys"
  by (simp add: sharedPrefix_def objectPrototypeKeys_def)

lemma sharedPrefix_not_index: "\<not> isArrayIndex sharedPrefix"
  by (simp add: isArrayIndex_def sharedPrefix_def isDigit_def)

lemma firstSeen_snoc: "firstSeen (xs @ [x]) = setAdd x (firstSeen xs)"
  by (simp add: firstSeen_def)

lemma set_firstSeen: "set (firstSeen xs) = set xs"
  by (induction xs rule: rev_induct) (auto simp: firstSeen_snoc setAdd_def firstSeen_def)

lemma distinct_firstSeen: "distinct (firstSeen xs)"
  by (induction xs rule: rev_induct) (auto simp: firstSeen_snoc setAdd_def firstSeen_def)

lemma length_firstSeen: "length (firstSeen xs) = card (set xs)"
  using distinct_card[OF distinct_firstSeen, of xs] by (simp add: set_firstSeen)

lemma members_snoc:
  "members k (cs @ [c]) = (if groupKey c = k then members k cs @ [c] else members k cs)"
  by (simp add: members_def)

lemma accOf_snoc_same:
  "groupKey c = k \<Longrightarrow> accOf k (cs @ [c]) = pushCandidate c (accOf k cs)"
  by (simp add: accOf_def members_snoc pushCandidate_def firstSeen_snoc)

lemma accOf_snoc_other:
  "groupKey c \<noteq> k \<Longrightarrow> accOf k (cs @ [c]) = accOf k cs"
  by (simp add: accOf_def members_snoc)

lemma accOf_absent:
  "k \<notin> groupKey ` set cs \<Longrightarrow> accOf k cs = emptyGroup"
proof -
  assume "k \<notin> groupKey ` set cs"
  then have "members k cs = []" by (auto simp: members_def filter_empty_conv)
  then show ?thesis by (simp add: accOf_def emptyGroup_def firstSeen_def)
qed

lemma map_of_groupTable:
  "map_of (groupTable cs) k = (if k \<in> groupKey ` set cs then Some (accOf k cs) else None)"
proof -
  have "map_of (map (\<lambda>k. (k, accOf k cs)) ks) k = (if k \<in> set ks then Some (accOf k cs) else None)" for ks
    by (induction ks) auto
  then show ?thesis by (simp add: groupTable_def set_firstSeen)
qed

lemma addCandidate_table:
  assumes "ordinaryKeys pre"
  shows "addCandidate (groupTable pre) c =
           (if groupKey c \<in> set objectPrototypeKeys then Inl TypeError
            else Inr (groupTable (pre @ [c])))"
proof (cases "groupKey c \<in> groupKey ` set pre")
  case True
  then have notproto: "groupKey c \<notin> set objectPrototypeKeys"
    using assms by (auto simp: ordinaryKeys_def list_all_iff)
  have fs: "firstSeen (map groupKey (pre @ [c])) = firstSeen (map groupKey pre)"
    using True by (simp add: firstSeen_snoc setAdd_def set_firstSeen)
  have "map (\<lambda>(k', g'). if k' = groupKey c then (k', pushCandidate c g') else (k', g')) (groupTable pre)
        = groupTable (pre @ [c])"
    unfolding groupTable_def fs
    by (auto simp: accOf_snoc_same accOf_snoc_other)
  then show ?thesis
    using True notproto by (simp add: addCandidate_def Let_def map_of_groupTable groupKey_def)
next
  case False
  have fs: "firstSeen (map groupKey (pre @ [c])) = firstSeen (map groupKey pre) @ [groupKey c]"
    using False by (simp add: firstSeen_snoc setAdd_def set_firstSeen)
  have other: "accOf (groupKey x) (pre @ [c]) = accOf (groupKey x) pre" if "x \<in> set pre" for x
    using that False by (intro accOf_snoc_other) auto
  have "groupTable pre @ [(groupKey c, pushCandidate c emptyGroup)] = groupTable (pre @ [c])"
    unfolding groupTable_def fs
    using False by (auto simp: accOf_snoc_same other accOf_absent set_firstSeen)
  then show ?thesis
    using False by (simp add: addCandidate_def Let_def map_of_groupTable groupKey_def)
qed

lemma groupCandidates_table:
  assumes "ordinaryKeys pre"
  shows "groupCandidates (groupTable pre) cs =
           (if ordinaryKeys cs then Inr (groupTable (pre @ cs)) else Inl TypeError)"
  using assms
proof (induction cs arbitrary: pre)
  case Nil
  then show ?case by (simp add: ordinaryKeys_def)
next
  case (Cons c cs)
  show ?case
  proof (cases "groupKey c \<in> set objectPrototypeKeys")
    case True
    then show ?thesis
      using Cons.prems by (simp add: addCandidate_table ordinaryKeys_def)
  next
    case False
    then have "ordinaryKeys (pre @ [c])"
      using Cons.prems by (simp add: ordinaryKeys_def)
    from Cons.IH[OF this] show ?thesis
      using False Cons.prems by (simp add: addCandidate_table ordinaryKeys_def)
  qed
qed

lemma groupCandidates_Nil:
  "groupCandidates [] cs = (if ordinaryKeys cs then Inr (groupTable cs) else Inl TypeError)"
proof -
  have "groupTable [] = []" by (simp add: groupTable_def firstSeen_def)
  moreover have "ordinaryKeys []" by (simp add: ordinaryKeys_def)
  ultimately show ?thesis using groupCandidates_table[of "[]" cs] by simp
qed

lemma groupOf_fields:
  "key (groupOf k cs) = k"
  "candidates (groupOf k cs) = members k cs"
  "agentCount (groupOf k cs) = card (agentId ` set (members k cs))"
  "roundCount (groupOf k cs) = card (roundNo ` set (members k cs))"
  "avgEntropy (groupOf k cs) = sum_list (map entropy (members k cs)) / real (length (members k cs))"
  "score (groupOf k cs) = real (agentCount (groupOf k cs)) * 2 + real (roundCount (groupOf k cs)) * 1.5
                            + avgEntropy (groupOf k cs) * 3"
  by (simp_all add: groupOf_def scoreGroup_def accOf_def Let_def length_firstSeen)

lemma set_objectEntries: "set (objectEntries xs) = set xs"
  using mset_objectEntries[of xs] by (metis set_mset_mset)

lemma set_rankedGroups:
  "set (rankedGroups cs) = (\<lambda>k. groupOf k cs) ` groupKey ` set cs"
  by (auto simp: rankedGroups_def sortByScore_def set_objectEntries groupTable_def set_firstSeen
        groupOf_def image_iff)

lemma map_key_scoreGroup: "map key (map scoreGroup xs) = map fst xs"
  by (induction xs) (auto simp: scoreGroup_def Let_def)

lemma distinct_keys_rankedGroups: "distinct (map key (rankedGroups cs))"
proof -
  have "mset (rankedGroups cs) = mset (map scoreGroup (objectEntries (groupTable cs)))"
    by (simp add: rankedGroups_def sortByScore_def)
  then have "mset (map key (rankedGroups cs)) = mset (map key (map scoreGroup (objectEntries (groupTable cs))))"
    by (metis mset_map)
  also have "\<dots> = mset (map fst (objectEntries (groupTable cs)))"
    by (simp only: map_key_scoreGroup)
  also have "\<dots> = mset (map fst (groupTable cs))"
    using mset_objectEntries[of "groupTable cs"] by (metis mset_map)
  also have "\<dots> = mset (firstSeen (map groupKey cs))"
    by (simp add: groupTable_def comp_def)
  finally have "mset (map key (rankedGroups cs)) = mset (firstSeen (map groupKey cs))" .
  then show ?thesis
    using distinct_firstSeen by (metis mset_eq_imp_distinct_iff)
qed

lemma rankedGroups_sorted:
  "sorted (map (\<lambda>g. - score g) (rankedGroups cs))"
  by (simp add: rankedGroups_def sortByScore_def)

lemma rankedGroups_nonempty: "cs \<noteq> [] \<Longrightarrow> rankedGroups cs \<noteq> []"
proof -
  assume "cs \<noteq> []"
  then have "set (rankedGroups cs) \<noteq> {}" by (simp add: set_rankedGroups)
  then show ?thesis by auto
qed

lemma rankedGroups_Nil: "rankedGroups [] = []"
  by (simp add: rankedGroups_def sortByScore_def objectEntries_def groupTable_def firstSeen_def)

lemma rankedGroups_candidates:
  assumes "G \<in> set (rankedGroups cs)"
  shows "candidates G = members (key G) cs \<and> candidates G \<noteq> []"
proof -
  from assms obtain c where c: "c \<in> set cs" "G = groupOf (groupKey c) cs"
    by (auto simp: set_rankedGroups)
  then have "c \<in> set (members (groupKey c) cs)" by (simp add: members_def)
  then show ?thesis using c by (auto simp: groupOf_fields)
qed

text \<open>The reduce picks the first fragment of maximal entropy.\<close>

lemma foldl_best:
  "foldl (\<lambda>best current. if entropy current > entropy best then current else best) b xs \<in> set (b # xs)
   \<and> (\<forall>c\<in>set (b # xs). entropy c
          \<le> entropy (foldl (\<lambda>best current. if entropy current > entropy best then current else best) b xs))"
proof (induction xs arbitrary: b)
  case Nil
  show ?case by simp
next
  case (Cons x xs)
  show ?case
  proof (cases "entropy x > entropy b")
    case True
    with Cons[of x] show ?thesis by (auto intro: order_trans less_imp_le)
  next
    case False
    with Cons[of b] show ?thesis by auto
  qed
qed

lemma rootCandidateOf_max:
  assumes "xs \<noteq> []"
  shows "\<exists>root. rootCandidateOf xs = Inr root \<and> root \<in> set xs
           \<and> (\<forall>c\<in>set xs. entropy c \<le> entropy root)"
proof -
  from assms obtain b rest where xs: "xs = b # rest" by (cases xs) auto
  show ?thesis
    unfolding xs using foldl_best[of b rest] by (simp add: rootCandidateOf_def)
qed

lemma assemble_ordinary:
  assumes "ordinaryKeys cs" "cs \<noteq> []"
  shows "\<exists>root first rest.
           candidates (hd (rankedGroups cs)) = first # rest
         \<and> rootCandidateOf (candidates (hd (rankedGroups cs))) = Inr root
         \<and> assembleFinalAnswer nts cs g =
             Inr \<lparr>genesis = g,
                  selectedCandidate = candidate first,
                  resultScore = toFixed nts 3 (score (hd (rankedGroups cs))),
                  resultAgentCount = agentCount (hd (rankedGroups cs)),
                  resultRoundCount = roundCount (hd (rankedGroups cs)),
                  resultAvgEntropy = toFixed nts 3 (avgEntropy (hd (rankedGroups cs))),
                  rootAgent = agentId root,
                  rootEntropy = toFixed nts 3 (entropy root),
                  allGroups = rankedGroups cs\<rparr>"
proof -
  let ?top = "hd (rankedGroups cs)"
  have ne: "rankedGroups cs \<noteq> []" using assms(2) by (rule rankedGroups_nonempty)
  then have "?top \<in> set (rankedGroups cs)" by simp
  then have cne: "candidates ?top \<noteq> []" using rankedGroups_candidates by blast
  then obtain first rest where fr: "candidates ?top = first # rest" by (cases "candidates ?top") auto
  from rootCandidateOf_max[OF cne] obtain root where root: "rootCandidateOf (candidates ?top) = Inr root"
    by blast
  have len: "length (map scoreGroup (objectEntries (groupTable cs))) \<noteq> 0"
    using ne by (auto simp: rankedGroups_def sortByScore_def)
  have "assembleFinalAnswer nts cs g =
             Inr \<lparr>genesis = g,
                  selectedCandidate = candidate first,
                  resultScore = toFixed nts 3 (score ?top),
                  resultAgentCount = agentCount ?top,
                  resultRoundCount = roundCount ?top,
                  resultAvgEntropy = toFixed nts 3 (avgEntropy ?top),
                  rootAgent = agentId root,
                  rootEntropy = toFixed nts 3 (entropy root),
                  allGroups = rankedGroups cs\<rparr>"
    using assms(1) len root fr
    by (simp add: assembleFinalAnswer_def groupCandidates_Nil Let_def rankedGroups_def [symmetric])
  with fr root show ?thesis by blast
qed

lemma assemble_allGroups:
  assumes "assembleFinalAnswer nts cs g = Inr r"
  shows "ordinaryKeys cs \<and> allGroups r = rankedGroups cs"
proof -
  have ok: "ordinaryKeys cs"
    using assms by (auto simp: assembleFinalAnswer_def groupCandidates_Nil split: if_splits)
  show ?thesis
  proof (cases "cs = []")
    case True
    then show ?thesis
      using assms ok by (auto simp: assembleFinalAnswer_def rankedGroups_Nil objectEntries_def sentinelResult_def)
  next
    case False
    from assemble_ordinary[OF ok False, of nts g] assms show ?thesis
      using ok by auto
  qed
qed

text \<open>
  A text that starts with the comment marker has a grouping key that is neither a
  property name inherited from \<open>Object.prototype\<close> nor an array index.
\<close>

lemma comment_key_ordinary:
  assumes "take 3 (candidate c) = ''// ''"
  shows "groupKey c \<notin> set objectPrototypeKeys \<and> \<not> isArrayIndex (groupKey c)"
proof -
  have "take 3 (groupKey c) = ''// ''"
    using assms by (simp add: groupKey_def)
  then obtain rest where k: "groupKey c = ''// '' @ rest"
    by (metis append_take_drop_id)
  show ?thesis
    unfolding k by (simp add: objectPrototypeKeys_def isArrayIndex_def isDigit_def)
qed

lemma commentMarked_ordinary:
  assumes "commentMarked cs"
  shows "ordinaryKeys cs" "list_all (\<lambda>c. \<not> isArrayIndex (groupKey c)) cs"
  using assms by (auto simp: commentMarked_def ordinaryKeys_def list_all_iff dest: comment_key_ordinary)

lemma firstPos_less: "x \<in> set xs \<Longrightarrow> firstPos x xs < length xs"
  unfolding firstPos_def by (induction xs) auto

lemma firstPos_append_in: "x \<in> set xs \<Longrightarrow> firstPos x (xs @ ys) = firstPos x xs"
  unfolding firstPos_def by (induction xs) auto

lemma firstPos_snoc_new: "x \<notin> set xs \<Longrightarrow> firstPos x (xs @ [x]) = length xs"
  unfolding firstPos_def by (induction xs) auto

lemma firstSeen_sorted: "sorted_wrt (\<lambda>a b. firstPos a xs < firstPos b xs) (firstSeen xs)"
proof (induction xs rule: rev_induct)
  case Nil
  show ?case by (simp add: firstSeen_def)
next
  case (snoc x xs)
  have mono: "sorted_wrt (\<lambda>a b. firstPos a (xs @ [x]) < firstPos b (xs @ [x])) (firstSeen xs)"
    using snoc by (rule sorted_wrt_mono_rel[rotated]) (simp add: set_firstSeen firstPos_append_in)
  show ?case
  proof (cases "x \<in> set xs")
    case True
    then show ?thesis using mono by (simp add: firstSeen_snoc setAdd_def set_firstSeen)
  next
    case False
    then show ?thesis using mono
      by (auto simp: firstSeen_snoc setAdd_def set_firstSeen sorted_wrt_append firstPos_append_in
            firstPos_snoc_new firstPos_less)
  qed
qed

lemma insort_key_tie:
  fixes f :: "'a \<Rightarrow> 'b::linorder"
  assumes "sorted_wrt (\<lambda>a b. f a < f b \<or> (f a = f b \<and> B a b)) ys" "sorted (map f ys)"
    "\<forall>y\<in>set ys. B a y"
  shows "sorted_wrt (\<lambda>a b. f a < f b \<or> (f a = f b \<and> B a b)) (insort_key f a ys)"
  using assms by (induction ys) (auto simp: set_insort_key)

lemma sort_key_tie:
  fixes f :: "'a \<Rightarrow> 'b::linorder"
  assumes "sorted_wrt B xs"
  shows "sorted_wrt (\<lambda>a b. f a < f b \<or> (f a = f b \<and> B a b)) (sort_key f xs)"
  using assms
proof (induction xs)
  case Nil
  show ?case by simp
next
  case (Cons a xs)
  have "sorted_wrt (\<lambda>a b. f a < f b \<or> (f a = f b \<and> B a b)) (insort_key f a (sort_key f xs))"
  proof (rule insort_key_tie)
    show "sorted_wrt (\<lambda>a b. f a < f b \<or> (f a = f b \<and> B a b)) (sort_key f xs)"
      using Cons by simp
    show "sorted (map f (sort_key f xs))" by simp
    show "\<forall>y\<in>set (sort_key f xs). B a y" using Cons.prems by simp
  qed
  then show ?case by simp
qed

lemma groupTable_sorted:
  "sorted_wrt (\<lambda>x y. firstPos (fst x) (map groupKey cs) < firstPos (fst y) (map groupKey cs))
     (groupTable cs)"
  using firstSeen_sorted[of "map groupKey cs"]
  by (simp add: groupTable_def sorted_wrt_map)

lemma objectEntries_order:
  assumes "sorted_wrt (\<lambda>x y. firstPos (fst x) keys < firstPos (fst y) keys) T"
  shows "sorted_wrt (\<lambda>x y. entryBefore keys (fst x) (fst y)) (objectEntries T)"
proof -
  let ?I = "sort_key (\<lambda>(k, v). decimalValue k) (filter (\<lambda>(k, v). isArrayIndex k) T)"
  let ?N = "filter (\<lambda>(k, v). \<not> isArrayIndex k) T"
  have "sorted (map (\<lambda>(k, v). decimalValue k) ?I)" by simp
  then have "sorted_wrt (\<lambda>x y. decimalValue (fst x) \<le> decimalValue (fst y)) ?I"
    by (simp add: sorted_map case_prod_unfold)
  then have i: "sorted_wrt (\<lambda>x y. entryBefore keys (fst x) (fst y)) ?I"
    by (rule sorted_wrt_mono_rel[rotated]) (auto simp: entryBefore_def)
  have "sorted_wrt (\<lambda>x y. firstPos (fst x) keys < firstPos (fst y) keys) ?N"
    using assms by (rule sorted_wrt_filter)
  then have n: "sorted_wrt (\<lambda>x y. entryBefore keys (fst x) (fst y)) ?N"
    by (rule sorted_wrt_mono_rel[rotated]) (auto simp: entryBefore_def)
  have c: "\<forall>x\<in>set ?I. \<forall>y\<in>set ?N. entryBefore keys (fst x) (fst y)"
    by (auto simp: entryBefore_def)
  show ?thesis
    unfolding objectEntries_def sorted_wrt_append using i n c by blast
qed

lemma key_scoreGroup: "key (scoreGroup x) = fst x"
  by (cases x) (simp add: scoreGroup_def Let_def)

lemma rankedGroups_order:
  "sorted_wrt (\<lambda>A B. score B < score A
                   \<or> (score A = score B \<and> entryBefore (map groupKey cs) (key A) (key B)))
     (rankedGroups cs)"
proof -
  have "sorted_wrt (\<lambda>A B. entryBefore (map groupKey cs) (key A) (key B))
          (map scoreGroup (objectEntries (groupTable cs)))"
    using objectEntries_order[OF groupTable_sorted, of cs]
    by (simp add: sorted_wrt_map key_scoreGroup)
  then have "sorted_wrt (\<lambda>A B. - score A < - score B
                   \<or> (- score A = - score B \<and> entryBefore (map groupKey cs) (key A) (key B)))
     (rankedGroups cs)"
    unfolding rankedGroups_def sortByScore_def by (rule sort_key_tie)
  then show ?thesis
    by (rule sorted_wrt_mono_rel[rotated]) auto
qed

lemma rankedGroups_first_seen:
  assumes "list_all (\<lambda>c. \<not> isArrayIndex (groupKey c)) cs"
  shows "sorted_wrt (\<lambda>A B. score B < score A
                   \<or> (score A = score B
                       \<and> firstPos (key A) (map groupKey cs) < firstPos (key B) (map groupKey cs)))
     (rankedGroups cs)"
proof -
  have ni: "\<not> isArrayIndex (key A)" if "A \<in> set (rankedGroups cs)" for A
    using that assms by (auto simp: set_rankedGroups groupOf_fields(1) list_all_iff)
  show ?thesis
    using rankedGroups_order[of cs]
    by (rule sorted_wrt_mono_rel[rotated]) (auto simp: entryBefore_def dest: ni)
qed

lemma foldl_best_first:
  assumes "foldl (\<lambda>best current. if entropy current > entropy best then current else best) b xs = m"
  shows "\<exists>pre post. b # xs = pre @ m # post
           \<and> (\<forall>c\<in>set pre. entropy c < entropy m)
           \<and> (\<forall>c\<in>set post. entropy c \<le> entropy m)"
  using assms
proof (induction xs arbitrary: b)
  case Nil
  then have "b # [] = [] @ m # []" by simp
  then show ?case by fastforce
next
  case (Cons x xs)
  show ?case
  proof (cases "entropy x > entropy b")
    case True
    then have f: "foldl (\<lambda>best current. if entropy current > entropy best then current else best) x xs = m"
      using Cons.prems by simp
    from Cons.IH[OF f] obtain pre post where
      d: "x # xs = pre @ m # post"
      and p: "\<forall>c\<in>set pre. entropy c < entropy m"
      and q: "\<forall>c\<in>set post. entropy c \<le> entropy m"
      by blast
    have "entropy x \<le> entropy m" using foldl_best[of x xs] f by simp
    then have b: "entropy b < entropy m" using True by simp
    have d': "b # x # xs = (b # pre) @ m # post" using d by simp
    have p': "\<forall>c\<in>set (b # pre). entropy c < entropy m" using p b by simp
    from d' p' q show ?thesis by blast
  next
    case False
    then have f: "foldl (\<lambda>best current. if entropy current > entropy best then current else best) b xs = m"
      using Cons.prems by simp
    from Cons.IH[OF f] obtain pre post where
      d: "b # xs = pre @ m # post"
      and p: "\<forall>c\<in>set pre. entropy c < entropy m"
      and q: "\<forall>c\<in>set post. entropy c \<le> entropy m"
      by blast
    show ?thesis
    proof (cases pre)
      case Nil
      then have r: "m = b" "xs = post" using d by simp_all
      have d': "b # x # xs = [] @ m # (x # post)" using r by simp
      have q': "\<forall>c\<in>set (x # post). entropy c \<le> entropy m" using q r False by simp
      have p': "\<forall>c\<in>set []. entropy c < entropy m" by simp
      from d' p' q' show ?thesis by blast
    next
      case (Cons p0 pre')
      then have pb: "p0 = b" "xs = pre' @ m # post" using d by simp_all
      have "entropy b < entropy m" using p Cons pb by simp
      then have xlt: "entropy x < entropy m" using False by simp
      have d': "b # x # xs = (b # x # pre') @ m # post" using pb(2) by simp
      have p': "\<forall>c\<in>set (b # x # pre'). entropy c < entropy m"
        using p Cons pb xlt by simp
      from d' p' q show ?thesis by blast
    qed
  qed
qed

lemma rootCandidateOf_first_max:
  assumes "rootCandidateOf xs = Inr m"
  shows "\<exists>pre post. xs = pre @ m # post
           \<and> (\<forall>c\<in>set pre. entropy c < entropy m)
           \<and> (\<forall>c\<in>set post. entropy c \<le> entropy m)"
proof (cases xs)
  case Nil
  with assms show ?thesis by (simp add: rootCandidateOf_def)
next
  case (Cons b rest)
  then have "foldl (\<lambda>best current. if entropy current > entropy best then current else best) b rest = m"
    using assms by (simp add: rootCandidateOf_def)
  from foldl_best_first[OF this] show ?thesis unfolding Cons .
qed

lemma groupKey_fun: "groupKey = (\<lambda>c. take 100 (candidate c))"
  by (rule ext) (simp add: groupKey_def)

lemma assemble_returns:
  assumes "ordinaryKeys cs"
  shows "\<exists>r. assembleFinalAnswer nts cs g = Inr r"
proof (cases "cs = []")
  case True
  then show ?thesis by (simp add: assembleFinalAnswer_def objectEntries_def)
next
  case False
  from assemble_ordinary[OF assms False, of nts g] show ?thesis by blast
qed

text \<open>
  C1.  The fragment lists of the program are those whose texts start with the comment
  marker of the step runner (\<open>roundsLoop_commentMarked\<close> below).  For every such list
  the assembler returns a result whose groups partition the fragments by the first 100
  characters of their text: the keys are distinct and are exactly the keys of the
  fragments, each group holds the fragments of its key in collection order, \<open>agentCount\<close>
  and \<open>roundCount\<close> are the numbers of distinct agent ids and round numbers in the
  group, \<open>avgEntropy\<close> is the mean of its entropies, and
  \<open>score = agentCount * 2 + roundCount * 1.5 + avgEntropy * 3\<close>.
\<close>

theorem assemble_group_statistics:
  assumes "commentMarked cs"
  shows "\<exists>r. assembleFinalAnswer nts cs g = Inr r
           \<and> distinct (map key (allGroups r))
           \<and> set (map key (allGroups r)) = (\<lambda>c. take 100 (candidate c)) ` set cs
           \<and> (\<forall>G\<in>set (allGroups r).
                  candidates G = filter (\<lambda>c. take 100 (candidate c) = key G) cs
                \<and> agentCount G = card (agentId ` set (candidates G))
                \<and> roundCount G = card (roundNo ` set (candidates G))
                \<and> avgEntropy G = sum_list (map entropy (candidates G)) / real (length (candidates G))
                \<and> score G = real (agentCount G) * 2 + real (roundCount G) * 1.5 + avgEntropy G * 3)"
proof -
  have ok: "ordinaryKeys cs" using assms by (rule commentMarked_ordinary)
  from assemble_returns[OF ok, of nts g]
  obtain r where r: "assembleFinalAnswer nts cs g = Inr r" by blast
  have ag: "allGroups r = rankedGroups cs" using assemble_allGroups[OF r] by simp
  have stats: "candidates G = filter (\<lambda>c. take 100 (candidate c) = key G) cs
                \<and> agentCount G = card (agentId ` set (candidates G))
                \<and> roundCount G = card (roundNo ` set (candidates G))
                \<and> avgEntropy G = sum_list (map entropy (candidates G)) / real (length (candidates G))
                \<and> score G = real (agentCount G) * 2 + real (roundCount G) * 1.5 + avgEntropy G * 3"
    if "G \<in> set (rankedGroups cs)" for G
  proof -
    from that obtain k where "G = groupOf k cs" by (auto simp: set_rankedGroups)
    then show ?thesis
      by (simp add: groupOf_fields members_def groupKey_def)
  qed
  have keys: "set (map key (rankedGroups cs)) = (\<lambda>c. take 100 (candidate c)) ` set cs"
    by (auto simp: set_rankedGroups groupOf_fields(1) groupKey_def image_iff)
  show ?thesis
    using r ag stats keys distinct_keys_rankedGroups[of cs] by auto
qed

text \<open>
  C2.  For every non-empty fragment list of the program the groups are returned sorted by
  score descending; \<open>selectedCandidate\<close> is the text of the first fragment, in
  collection order, of the top group; \<open>rootAgent\<close> and \<open>rootEntropy\<close> are the agent
  and the entropy (to three decimals) of the highest-entropy fragment of the top group,
  the first one in collection order when several fragments have that entropy: every
  fragment before it in the group has a smaller entropy and none after it has a larger
  one.
\<close>

theorem assemble_selection:
  assumes "commentMarked cs" "cs \<noteq> []"
  shows "\<exists>r top first rest pre best post.
           assembleFinalAnswer nts cs g = Inr r
         \<and> allGroups r = top # tl (allGroups r)
         \<and> sorted_wrt (\<lambda>a b. score b \<le> score a) (allGroups r)
         \<and> candidates top = filter (\<lambda>c. take 100 (candidate c) = key top) cs
         \<and> candidates top = first # rest
         \<and> selectedCandidate r = candidate first
         \<and> candidates top = pre @ best # post
         \<and> (\<forall>c\<in>set pre. entropy c < entropy best)
         \<and> (\<forall>c\<in>set post. entropy c \<le> entropy best)
         \<and> rootAgent r = agentId best
         \<and> rootEntropy r = toFixed nts 3 (entropy best)"
proof -
  let ?top = "hd (rankedGroups cs)"
  have ok: "ordinaryKeys cs" using assms(1) by (rule commentMarked_ordinary)
  from assemble_ordinary[OF ok assms(2), of nts g] obtain best first rest where
    fr: "candidates ?top = first # rest"
    and best: "rootCandidateOf (candidates ?top) = Inr best"
    and res: "assembleFinalAnswer nts cs g =
             Inr \<lparr>genesis = g,
                  selectedCandidate = candidate first,
                  resultScore = toFixed nts 3 (score ?top),
                  resultAgentCount = agentCount ?top,
                  resultRoundCount = roundCount ?top,
                  resultAvgEntropy = toFixed nts 3 (avgEntropy ?top),
                  rootAgent = agentId best,
                  rootEntropy = toFixed nts 3 (entropy best),
                  allGroups = rankedGroups cs\<rparr>"
    by blast
  have ne: "rankedGroups cs \<noteq> []" using assms(2) by (rule rankedGroups_nonempty)
  then have topin: "?top \<in> set (rankedGroups cs)" by simp
  have cand: "candidates ?top = filter (\<lambda>c. take 100 (candidate c) = key ?top) cs"
    using rankedGroups_candidates[OF topin] by (simp add: members_def groupKey_def)
  from rootCandidateOf_first_max[OF best] obtain pre post where
    dec: "candidates ?top = pre @ best # post"
    and lt: "\<forall>c\<in>set pre. entropy c < entropy best"
    and le: "\<forall>c\<in>set post. entropy c \<le> entropy best"
    by blast
  have "sorted (map (\<lambda>g. - score g) (rankedGroups cs))" by (rule rankedGroups_sorted)
  then have sw: "sorted_wrt (\<lambda>a b. score b \<le> score a) (rankedGroups cs)"
    by (simp add: sorted_map)
  have hdtl: "rankedGroups cs = ?top # tl (rankedGroups cs)" using ne by simp
  show ?thesis
    apply (rule exI[of _ "\<lparr>genesis = g,
                  selectedCandidate = candidate first,
                  resultScore = toFixed nts 3 (score ?top),
                  resultAgentCount = agentCount ?top,
                  resultRoundCount = roundCount ?top,
                  resultAvgEntropy = toFixed nts 3 (avgEntropy ?top),
                  rootAgent = agentId best,
                  rootEntropy = toFixed nts 3 (entropy best),
                  allGroups = rankedGroups cs\<rparr>"])
    apply (rule exI[of _ ?top], rule exI[of _ first], rule exI[of _ rest])
    apply (rule exI[of _ pre], rule exI[of _ best], rule exI[of _ post])
    using res hdtl sw cand fr dec lt le by simp
qed

text \<open>
  C5.  The assembler reads the fragment list and the genesis hash and nothing else, no
  clock, no random source and no other state: whenever it returns a result \<open>r\<close> for a
  list and a genesis hash, every run that assembles this list under this genesis hash
  and completes stores \<open>r\<close>, whatever its environment and the state it started from.
  In \<open>allGroups\<close> a group of higher score comes first, and groups of equal score are in
  the order of \<open>Object.entries\<close> over the group dictionary.  For the fragment lists of
  the program, whose keys are never array indices, the assembler returns a result, groups
  of equal score are in the order in which their keys were first seen in the list, the
  top group is the first seen of the groups of the highest score, and its first fragment
  is the selected candidate.
\<close>

theorem assemble_tie_order:
  "(\<forall>r. assembleFinalAnswer nts cs g = Inr r \<longrightarrow>
        sorted_wrt (\<lambda>A B. score B < score A
                        \<or> (score A = score B
                            \<and> entryBefore (map (\<lambda>c. take 100 (candidate c)) cs) (key A) (key B)))
          (allGroups r)
      \<and> (\<forall>env s s'. env_numberToString env = nts \<and> afterRounds env g cs s = (s', Inr ())
              \<longrightarrow> consensusResult s' = Some r))
   \<and> (commentMarked cs \<longrightarrow>
        (\<exists>r. assembleFinalAnswer nts cs g = Inr r
           \<and> sorted_wrt (\<lambda>A B. score B < score A
                        \<or> (score A = score B
                            \<and> firstPos (key A) (map (\<lambda>c. take 100 (candidate c)) cs)
                                < firstPos (key B) (map (\<lambda>c. take 100 (candidate c)) cs)))
               (allGroups r)
           \<and> (\<forall>G\<in>set (allGroups r).
                  score G \<le> score (hd (allGroups r))
                \<and> (score G = score (hd (allGroups r)) \<longrightarrow>
                      firstPos (key (hd (allGroups r))) (map (\<lambda>c. take 100 (candidate c)) cs)
                        \<le> firstPos (key G) (map (\<lambda>c. take 100 (candidate c)) cs)))
           \<and> (cs \<noteq> [] \<longrightarrow>
                  selectedCandidate r = candidate (hd (candidates (hd (allGroups r)))))))"
proof (intro conjI allI impI)
  fix r
  assume r: "assembleFinalAnswer nts cs g = Inr r"
  have ag: "allGroups r = rankedGroups cs" using assemble_allGroups[OF r] by simp
  show "sorted_wrt (\<lambda>A B. score B < score A
                        \<or> (score A = score B
                            \<and> entryBefore (map (\<lambda>c. take 100 (candidate c)) cs) (key A) (key B)))
          (allGroups r)"
    unfolding ag using rankedGroups_order[of cs] by (simp add: groupKey_fun)
  fix env s s'
  assume "env_numberToString env = nts \<and> afterRounds env g cs s = (s', Inr ())"
  then show "consensusResult s' = Some r"
    using r by (auto simp: afterRounds_def Let_def split: sum.splits)
next
  assume cm: "commentMarked cs"
  have ok: "ordinaryKeys cs" using cm by (rule commentMarked_ordinary)
  have ni: "list_all (\<lambda>c. \<not> isArrayIndex (groupKey c)) cs" using cm by (rule commentMarked_ordinary)
  from assemble_returns[OF ok, of nts g]
  obtain r where r: "assembleFinalAnswer nts cs g = Inr r" by blast
  have ag: "allGroups r = rankedGroups cs" using assemble_allGroups[OF r] by simp
  let ?R = "\<lambda>A B. score B < score A
                        \<or> (score A = score B
                            \<and> firstPos (key A) (map (\<lambda>c. take 100 (candidate c)) cs)
                                < firstPos (key B) (map (\<lambda>c. take 100 (candidate c)) cs))"
  have sw: "sorted_wrt ?R (allGroups r)"
    unfolding ag using rankedGroups_first_seen[OF ni] by (simp add: groupKey_fun)
  have top: "score G \<le> score (hd (allGroups r))
                \<and> (score G = score (hd (allGroups r)) \<longrightarrow>
                      firstPos (key (hd (allGroups r))) (map (\<lambda>c. take 100 (candidate c)) cs)
                        \<le> firstPos (key G) (map (\<lambda>c. take 100 (candidate c)) cs))"
    if "G \<in> set (allGroups r)" for G
  proof (cases "allGroups r")
    case Nil
    with that show ?thesis by simp
  next
    case (Cons t rest)
    have "\<forall>x\<in>set rest. ?R t x" using sw Cons by simp
    then show ?thesis using that Cons by auto
  qed
  have sel: "selectedCandidate r = candidate (hd (candidates (hd (allGroups r))))" if "cs \<noteq> []"
  proof -
    from assemble_ordinary[OF ok that, of nts g] r obtain first rest where
      "candidates (hd (rankedGroups cs)) = first # rest" "selectedCandidate r = candidate first"
      by auto
    then show ?thesis unfolding ag by simp
  qed
  show "\<exists>r. assembleFinalAnswer nts cs g = Inr r
           \<and> sorted_wrt ?R (allGroups r)
           \<and> (\<forall>G\<in>set (allGroups r).
                  score G \<le> score (hd (allGroups r))
                \<and> (score G = score (hd (allGroups r)) \<longrightarrow>
                      firstPos (key (hd (allGroups r))) (map (\<lambda>c. take 100 (candidate c)) cs)
                        \<le> firstPos (key G) (map (\<lambda>c. take 100 (candidate c)) cs)))
           \<and> (cs \<noteq> [] \<longrightarrow>
                  selectedCandidate r = candidate (hd (candidates (hd (allGroups r)))))"
    using r sw top sel by blast
qed

subsection \<open>Examples\<close>

lemma example_keys_not_index:
  "\<not> isArrayIndex ''// alpha''" "\<not> isArrayIndex ''// a''" "\<not> isArrayIndex ''// b''"
  by (simp_all add: isArrayIndex_def isDigit_def)

lemma example_keys_index: "isArrayIndex ''0''" "isArrayIndex ''1''"
  by (simp_all add: isArrayIndex_def isDigit_def decimalValue_def digitValue_def)

lemma take3_sharedPrefix: "take 3 sharedPrefix = ''// ''"
  by (simp add: sharedPrefix_def)

text \<open>
  The scenario of the specification: two fragments that share their first 100 characters,
  from two agents, in rounds 0 and 1, with entropies 2 and 3, form one group with
  \<open>agentCount = 2\<close>, \<open>roundCount = 2\<close>, \<open>avgEntropy = 2.5\<close> and \<open>score = 14.5\<close>.
\<close>

theorem assemble_group_statistics_witness:
  "commentMarked [fragment ''agent-0'' 0 (sharedPrefix @ ''A'') 2,
                  fragment ''agent-1'' 1 (sharedPrefix @ ''B'') 3]
   \<and> (\<exists>r. assembleFinalAnswer (\<lambda>x. [])
              [fragment ''agent-0'' 0 (sharedPrefix @ ''A'') 2,
               fragment ''agent-1'' 1 (sharedPrefix @ ''B'') 3] ''genesis'' = Inr r
          \<and> allGroups r =
                [\<lparr>key = sharedPrefix,
                  candidates = [fragment ''agent-0'' 0 (sharedPrefix @ ''A'') 2,
                                fragment ''agent-1'' 1 (sharedPrefix @ ''B'') 3],
                  score = 14.5, agentCount = 2, roundCount = 2, avgEntropy = 2.5\<rparr>])"
proof -
  let ?cs = "[fragment ''agent-0'' 0 (sharedPrefix @ ''A'') 2,
              fragment ''agent-1'' 1 (sharedPrefix @ ''B'') 3]"
  have h: "commentMarked ?cs"
    by (simp add: commentMarked_def fragment_def take3_sharedPrefix length_sharedPrefix)
  from assemble_group_statistics [OF h, of "\<lambda>x. []" "''genesis''"] obtain r where
    r: "assembleFinalAnswer (\<lambda>x. []) ?cs ''genesis'' = Inr r"
    and keys: "set (map key (allGroups r)) = (\<lambda>c. take 100 (candidate c)) ` set ?cs"
    and dist: "distinct (map key (allGroups r))"
    and stats: "\<forall>G\<in>set (allGroups r).
                  candidates G = filter (\<lambda>c. take 100 (candidate c) = key G) ?cs
                \<and> agentCount G = card (agentId ` set (candidates G))
                \<and> roundCount G = card (roundNo ` set (candidates G))
                \<and> avgEntropy G = sum_list (map entropy (candidates G)) / real (length (candidates G))
                \<and> score G = real (agentCount G) * 2 + real (roundCount G) * 1.5 + avgEntropy G * 3"
    by blast
  have ks: "set (map key (allGroups r)) = {sharedPrefix}"
    unfolding keys by (simp add: fragment_def length_sharedPrefix take_sharedPrefix)
  with dist obtain G where G: "allGroups r = [G]" "key G = sharedPrefix"
    by (cases "allGroups r"; cases "tl (allGroups r)") auto
  from stats G have c: "candidates G = ?cs"
    by (simp add: fragment_def length_sharedPrefix take_sharedPrefix)
  from stats G c have "agentCount G = 2" "roundCount G = 2" "avgEntropy G = 2.5"
    by (simp_all add: fragment_def)
  moreover from this stats G have "score G = 14.5" by simp
  ultimately have g: "G = \<lparr>key = sharedPrefix, candidates = ?cs, score = 14.5, agentCount = 2,
      roundCount = 2, avgEntropy = 2.5\<rparr>"
    using G c by simp
  from r G(1) g have "\<exists>r. assembleFinalAnswer (\<lambda>x. []) ?cs ''genesis'' = Inr r
          \<and> allGroups r = [\<lparr>key = sharedPrefix, candidates = ?cs, score = 14.5, agentCount = 2,
                               roundCount = 2, avgEntropy = 2.5\<rparr>]"
    by blast
  with h show ?thesis by (rule conjI)
qed

text \<open>
  Four fragments in two groups.  The group seen second scores higher and comes first; its
  first-inserted fragment (of \<open>agent-1\<close>) gives \<open>selectedCandidate\<close>; two of its
  fragments have the highest entropy, and the first of them (of \<open>agent-2\<close>) gives
  \<open>rootAgent\<close> and \<open>rootEntropy\<close>.
\<close>

theorem assemble_selection_witness:
  "commentMarked [fragment ''agent-0'' 0 ''// alpha'' 1,
                  fragment ''agent-1'' 0 (sharedPrefix @ ''first'') 1,
                  fragment ''agent-2'' 1 (sharedPrefix @ ''second'') 4,
                  fragment ''agent-3'' 1 (sharedPrefix @ ''third'') 4]
   \<and> assembleFinalAnswer (\<lambda>x. [])
         [fragment ''agent-0'' 0 ''// alpha'' 1,
          fragment ''agent-1'' 0 (sharedPrefix @ ''first'') 1,
          fragment ''agent-2'' 1 (sharedPrefix @ ''second'') 4,
          fragment ''agent-3'' 1 (sharedPrefix @ ''third'') 4] ''genesis''
       = Inr \<lparr>genesis = ''genesis'', selectedCandidate = sharedPrefix @ ''first'',
              resultScore = ''18.000'', resultAgentCount = 3, resultRoundCount = 2,
              resultAvgEntropy = ''3.000'', rootAgent = ''agent-2'', rootEntropy = ''4.000'',
              allGroups =
                [\<lparr>key = sharedPrefix,
                  candidates = [fragment ''agent-1'' 0 (sharedPrefix @ ''first'') 1,
                                fragment ''agent-2'' 1 (sharedPrefix @ ''second'') 4,
                                fragment ''agent-3'' 1 (sharedPrefix @ ''third'') 4],
                  score = 18, agentCount = 3, roundCount = 2, avgEntropy = 3\<rparr>,
                 \<lparr>key = ''// alpha'',
                  candidates = [fragment ''agent-0'' 0 ''// alpha'' 1],
                  score = 6.5, agentCount = 1, roundCount = 1, avgEntropy = 1\<rparr>]\<rparr>"
proof -
  let ?cs = "[fragment ''agent-0'' 0 ''// alpha'' 1,
              fragment ''agent-1'' 0 (sharedPrefix @ ''first'') 1,
              fragment ''agent-2'' 1 (sharedPrefix @ ''second'') 4,
              fragment ''agent-3'' 1 (sharedPrefix @ ''third'') 4]"
  have h: "commentMarked ?cs"
    by (simp add: commentMarked_def fragment_def take3_sharedPrefix length_sharedPrefix)
  have ne: "?cs \<noteq> []" by simp
  from assemble_selection [OF h ne, of "\<lambda>x. []" "''genesis''"] obtain r top first rest where
    r: "assembleFinalAnswer (\<lambda>x. []) ?cs ''genesis'' = Inr r"
    and top: "allGroups r = top # tl (allGroups r)"
    and sel: "candidates top = first # rest" "selectedCandidate r = candidate first"
    by blast
  have neq: "sharedPrefix \<noteq> ''// alpha''"
  proof
    assume "sharedPrefix = ''// alpha''"
    then have "length sharedPrefix = length ''// alpha''" by (rule arg_cong)
    then show False by (simp add: length_sharedPrefix)
  qed
  have ev: "assembleFinalAnswer (\<lambda>x. []) ?cs ''genesis''
       = Inr \<lparr>genesis = ''genesis'', selectedCandidate = sharedPrefix @ ''first'',
              resultScore = ''18.000'', resultAgentCount = 3, resultRoundCount = 2,
              resultAvgEntropy = ''3.000'', rootAgent = ''agent-2'', rootEntropy = ''4.000'',
              allGroups =
                [\<lparr>key = sharedPrefix,
                  candidates = [fragment ''agent-1'' 0 (sharedPrefix @ ''first'') 1,
                                fragment ''agent-2'' 1 (sharedPrefix @ ''second'') 4,
                                fragment ''agent-3'' 1 (sharedPrefix @ ''third'') 4],
                  score = 18, agentCount = 3, roundCount = 2, avgEntropy = 3\<rparr>,
                 \<lparr>key = ''// alpha'',
                  candidates = [fragment ''agent-0'' 0 ''// alpha'' 1],
                  score = 6.5, agentCount = 1, roundCount = 1, avgEntropy = 1\<rparr>]\<rparr>"
    using sharedPrefix_ordinary neq neq[symmetric]
    by (simp add: assemble_eval length_sharedPrefix take_sharedPrefix sharedPrefix_not_index
          example_keys_not_index toFixed_examples)
  from h ev r top sel show ?thesis by simp
qed

text \<open>
  Two groups of equal score stay in first-seen order, and a run that assembles them
  stores the result.
\<close>

theorem assemble_tie_order_witness:
  "commentMarked [fragment ''agent-0'' 0 ''// b'' 0, fragment ''agent-1'' 0 ''// a'' 0]
   \<and> assembleFinalAnswer (\<lambda>x. [])
       [fragment ''agent-0'' 0 ''// b'' 0, fragment ''agent-1'' 0 ''// a'' 0] ''genesis''
     = Inr \<lparr>genesis = ''genesis'', selectedCandidate = ''// b'',
            resultScore = ''3.500'', resultAgentCount = 1, resultRoundCount = 1,
            resultAvgEntropy = ''0.000'', rootAgent = ''agent-0'', rootEntropy = ''0.000'',
            allGroups =
              [\<lparr>key = ''// b'', candidates = [fragment ''agent-0'' 0 ''// b'' 0],
                score = 3.5, agentCount = 1, roundCount = 1, avgEntropy = 0\<rparr>,
               \<lparr>key = ''// a'', candidates = [fragment ''agent-1'' 0 ''// a'' 0],
                score = 3.5, agentCount = 1, roundCount = 1, avgEntropy = 0\<rparr>]\<rparr>
   \<and> snd (afterRounds transparentEnv ''genesis''
            [fragment ''agent-0'' 0 ''// b'' 0, fragment ''agent-1'' 0 ''// a'' 0] exampleState)
       = Inr ()
   \<and> consensusResult (fst (afterRounds transparentEnv ''genesis''
            [fragment ''agent-0'' 0 ''// b'' 0, fragment ''agent-1'' 0 ''// a'' 0] exampleState))
       = Some \<lparr>genesis = ''genesis'', selectedCandidate = ''// b'',
            resultScore = ''3.500'', resultAgentCount = 1, resultRoundCount = 1,
            resultAvgEntropy = ''0.000'', rootAgent = ''agent-0'', rootEntropy = ''0.000'',
            allGroups =
              [\<lparr>key = ''// b'', candidates = [fragment ''agent-0'' 0 ''// b'' 0],
                score = 3.5, agentCount = 1, roundCount = 1, avgEntropy = 0\<rparr>,
               \<lparr>key = ''// a'', candidates = [fragment ''agent-1'' 0 ''// a'' 0],
                score = 3.5, agentCount = 1, roundCount = 1, avgEntropy = 0\<rparr>]\<rparr>"
proof -
  let ?cs = "[fragment ''agent-0'' 0 ''// b'' 0, fragment ''agent-1'' 0 ''// a'' 0]"
  let ?gs = "[\<lparr>key = ''// b'', candidates = [fragment ''agent-0'' 0 ''// b'' 0],
                score = 3.5, agentCount = 1, roundCount = 1, avgEntropy = 0\<rparr>,
              \<lparr>key = ''// a'', candidates = [fragment ''agent-1'' 0 ''// a'' 0],
                score = 3.5, agentCount = 1, roundCount = 1, avgEntropy = 0\<rparr>]"
  let ?r = "\<lparr>genesis = ''genesis'', selectedCandidate = ''// b'',
            resultScore = ''3.500'', resultAgentCount = 1, resultRoundCount = 1,
            resultAvgEntropy = ''0.000'', rootAgent = ''agent-0'', rootEntropy = ''0.000'',
            allGroups = ?gs\<rparr>"
  let ?run = "afterRounds transparentEnv ''genesis'' ?cs exampleState"
  have h: "commentMarked ?cs"
    by (simp add: commentMarked_def fragment_def)
  have ev: "assembleFinalAnswer (\<lambda>x. []) ?cs ''genesis'' = Inr ?r"
    by (simp add: assemble_eval example_keys_not_index toFixed_examples)
  have nts: "env_numberToString transparentEnv = (\<lambda>x. [])"
    by (simp add: transparentEnv_def)
  have fin: "snd ?run = Inr ()"
    by (simp add: afterRounds_def Let_def transparentEnv_def ev)
  then have run: "?run = (fst ?run, Inr ())"
    by (metis prod.collapse)
  note t = assemble_tie_order [of "\<lambda>x. []" ?cs "''genesis''"]
  from t ev nts run have stored: "consensusResult (fst ?run) = Some ?r"
    by blast
  from t h obtain r' where "assembleFinalAnswer (\<lambda>x. []) ?cs ''genesis'' = Inr r'"
    by blast
  with h ev fin stored show ?thesis by (intro conjI)
qed

subsection \<open>Keys that no run produces\<close>

text \<open>
  The dictionary of the groups is an object literal, so the order of \<open>Object.entries\<close>
  and the properties inherited from \<open>Object.prototype\<close> show on texts that no step of a
  run returns.  \<open>Object.entries\<close> lists array indices first, by value, and the other
  keys (among them the numeral \<open>01\<close>, which is not canonical) as inserted.
\<close>

lemma objectEntries_example:
  "objectEntries [(''b'', 1::nat), (''10'', 2), (''a'', 3), (''9'', 4), (''01'', 5)]
     = [(''9'', 4), (''10'', 2), (''b'', 1), (''a'', 3), (''01'', 5)]"
  by (simp add: objectEntries_def isArrayIndex_def isDigit_def decimalValue_def digitValue_def)

text \<open>
  Two groups of equal score with the keys \<open>1\<close> and \<open>0\<close>, seen in this order: the
  array index \<open>0\<close> is listed first.
\<close>

lemma assemble_index_keys:
  "assembleFinalAnswer (\<lambda>x. [])
     [fragment ''agent-0'' 0 ''1'' 0, fragment ''agent-1'' 0 ''0'' 0] ''genesis''
     = Inr \<lparr>genesis = ''genesis'', selectedCandidate = ''0'',
            resultScore = ''3.500'', resultAgentCount = 1, resultRoundCount = 1,
            resultAvgEntropy = ''0.000'', rootAgent = ''agent-1'', rootEntropy = ''0.000'',
            allGroups =
              [\<lparr>key = ''0'', candidates = [fragment ''agent-1'' 0 ''0'' 0],
                score = 3.5, agentCount = 1, roundCount = 1, avgEntropy = 0\<rparr>,
               \<lparr>key = ''1'', candidates = [fragment ''agent-0'' 0 ''1'' 0],
                score = 3.5, agentCount = 1, roundCount = 1, avgEntropy = 0\<rparr>]\<rparr>"
  by (simp add: assemble_eval example_keys_index decimalValue_def digitValue_def toFixed_examples)

text \<open>
  A text that is a property name of \<open>Object.prototype\<close>: \<open>candidateGroups[key]\<close> is
  the inherited value, no group is created, and \<open>candidates.push\<close> throws.
\<close>

lemma assemble_inherited_key:
  "assembleFinalAnswer (\<lambda>x. []) [fragment ''agent-0'' 0 ''constructor'' 2] ''genesis''
     = Inl TypeError"
  by (simp add: assembleFinalAnswer_def addCandidate_def objectPrototypeKeys_def fragment_def)

section \<open>The round scheduler\<close>

lemma agentStep_success:
  assumes "agentStep env ctx rnd i agent = (agent', Inr f)"
  shows "rotated env (ctx_genesisHash ctx) rnd (agent_origin agent) f
         \<and> agentId f = agent_id agent
         \<and> agent_id agent' = agent_id agent
         \<and> agent_origin agent' = origin f"
  using assms
  by (auto simp: agentStep_def rotated_def Let_def split: sum.splits)

lemma roundSteps_success:
  assumes "roundSteps env ctx rnd i agents acc s = (s', Inr (agents', acc'))"
  shows "\<exists>frs. acc' = acc @ frs \<and> length frs = length agents \<and> length agents' = length agents
           \<and> (\<forall>j<length agents.
                  rotated env (ctx_genesisHash ctx) rnd (agent_origin (agents ! j)) (frs ! j)
                \<and> agentId (frs ! j) = agent_id (agents ! j)
                \<and> agent_id (agents' ! j) = agent_id (agents ! j)
                \<and> agent_origin (agents' ! j) = origin (frs ! j))"
  using assms
proof (induction agents arbitrary: i acc s s' agents' acc')
  case Nil
  then show ?case by simp
next
  case (Cons a agents)
  obtain a' res where st: "agentStep env ctx rnd i a = (a', res)" by (cases "agentStep env ctx rnd i a")
  show ?case
  proof (cases res)
    case (Inl e)
    with st Cons.prems show ?thesis by simp
  next
    case (Inr f)
    let ?s1 = "addLog env SENTINEL
              (''Fragment from '' @ agent_id a' @ '' (round '' @ natToString (rnd + 1) @ '')'') FRAGMENT s"
    from Cons.prems st Inr obtain rest' where
      rec: "roundSteps env ctx rnd (Suc i) agents (acc @ [f]) ?s1 = (s', Inr (rest', acc'))"
      and ag: "agents' = a' # rest'"
      by (auto simp: Let_def split: prod.splits sum.splits)
    from Cons.IH[OF rec] obtain frs where
      frs: "acc' = (acc @ [f]) @ frs" "length frs = length agents" "length rest' = length agents"
      and all: "\<forall>j<length agents.
                  rotated env (ctx_genesisHash ctx) rnd (agent_origin (agents ! j)) (frs ! j)
                \<and> agentId (frs ! j) = agent_id (agents ! j)
                \<and> agent_id (rest' ! j) = agent_id (agents ! j)
                \<and> agent_origin (rest' ! j) = origin (frs ! j)"
      by blast
    from agentStep_success[OF st[unfolded Inr]] have hd:
      "rotated env (ctx_genesisHash ctx) rnd (agent_origin a) f" "agentId f = agent_id a"
      "agent_id a' = agent_id a" "agent_origin a' = origin f"
      by simp_all
    have "\<forall>j<length (a # agents).
                  rotated env (ctx_genesisHash ctx) rnd (agent_origin ((a # agents) ! j)) ((f # frs) ! j)
                \<and> agentId ((f # frs) ! j) = agent_id ((a # agents) ! j)
                \<and> agent_id ((a' # rest') ! j) = agent_id ((a # agents) ! j)
                \<and> agent_origin ((a' # rest') ! j) = origin ((f # frs) ! j)"
    proof (intro allI impI)
      fix j assume "j < length (a # agents)"
      then show "rotated env (ctx_genesisHash ctx) rnd (agent_origin ((a # agents) ! j)) ((f # frs) ! j)
                \<and> agentId ((f # frs) ! j) = agent_id ((a # agents) ! j)
                \<and> agent_id ((a' # rest') ! j) = agent_id ((a # agents) ! j)
                \<and> agent_origin ((a' # rest') ! j) = origin ((f # frs) ! j)"
        using hd all by (cases j) auto
    qed
    then show ?thesis
      apply (intro exI[of _ "f # frs"])
      using frs ag by simp
  qed
qed

lemma roundsLoop_success:
  assumes "roundsLoop env ctx R r agents acc s = (s', Inr (agents', acc'))"
  shows "\<exists>rounds. acc' = acc @ concat rounds \<and> length rounds = R - r
           \<and> (\<forall>k<R - r. length (rounds ! k) = length agents
                 \<and> (\<forall>j<length agents.
                        rotated env (ctx_genesisHash ctx) (r + k) (originBefore agents rounds k j)
                          (rounds ! k ! j)
                      \<and> agentId (rounds ! k ! j) = agent_id (agents ! j)))"
  using assms
proof (induction "R - r" arbitrary: r agents acc s)
  case 0
  then have "acc' = acc" by (subst (asm) roundsLoop.simps) simp
  with 0 show ?case by simp
next
  case (Suc d)
  then have lt: "r < R" and d: "d = R - Suc r" by auto
  let ?s2 = "setAgentStatus RELAY
                 (''Processing round '' @ natToString (r + 1) @ '' with ''
                  @ natToString (length agents) @ '' agents...'') True
              (addLog env RELAY
                 (spinner @ ''Round '' @ natToString (r + 1) @ ''/'' @ natToString R @ ''...'') INFO s)"
  from Suc.prems lt obtain s3 agents1 acc1 where
    rs: "roundSteps env ctx r 0 agents acc ?s2 = (s3, Inr (agents1, acc1))"
    and rl: "roundsLoop env ctx R (Suc r) agents1 acc1 s3 = (s', Inr (agents', acc'))"
    by (subst (asm) roundsLoop.simps) (auto simp: Let_def split: prod.splits sum.splits)
  from roundSteps_success[OF rs] obtain frs where
    frs: "acc1 = acc @ frs" "length frs = length agents" "length agents1 = length agents"
    and fa: "\<forall>j<length agents.
                  rotated env (ctx_genesisHash ctx) r (agent_origin (agents ! j)) (frs ! j)
                \<and> agentId (frs ! j) = agent_id (agents ! j)
                \<and> agent_id (agents1 ! j) = agent_id (agents ! j)
                \<and> agent_origin (agents1 ! j) = origin (frs ! j)"
    by blast
  from Suc.hyps(1)[OF d rl] obtain rounds where
    rd: "acc' = acc1 @ concat rounds" "length rounds = R - Suc r"
    and ra: "\<forall>k<R - Suc r. length (rounds ! k) = length agents1
                 \<and> (\<forall>j<length agents1.
                        rotated env (ctx_genesisHash ctx) (Suc r + k) (originBefore agents1 rounds k j)
                          (rounds ! k ! j)
                      \<and> agentId (rounds ! k ! j) = agent_id (agents1 ! j))"
    by blast
  have "\<forall>k<R - r. length ((frs # rounds) ! k) = length agents
                 \<and> (\<forall>j<length agents.
                        rotated env (ctx_genesisHash ctx) (r + k) (originBefore agents (frs # rounds) k j)
                          ((frs # rounds) ! k ! j)
                      \<and> agentId ((frs # rounds) ! k ! j) = agent_id (agents ! j))"
  proof (intro allI impI)
    fix k assume k: "k < R - r"
    show "length ((frs # rounds) ! k) = length agents
                 \<and> (\<forall>j<length agents.
                        rotated env (ctx_genesisHash ctx) (r + k) (originBefore agents (frs # rounds) k j)
                          ((frs # rounds) ! k ! j)
                      \<and> agentId ((frs # rounds) ! k ! j) = agent_id (agents ! j))"
    proof (cases k)
      case 0
      then show ?thesis using frs fa by (simp add: originBefore_def)
    next
      case (Suc k')
      then have k': "k' < R - Suc r" using k by simp
      have po: "originBefore agents (frs # rounds) (Suc k') j = originBefore agents1 rounds k' j"
        if "j < length agents" for j
        using that fa by (cases k') (simp_all add: originBefore_def)
      show ?thesis
        using ra[rule_format, OF k'] frs fa po Suc by simp
    qed
  qed
  then show ?case
    apply (intro exI[of _ "frs # rounds"])
    using rd frs lt by (simp add: Suc_diff_Suc)
qed

text \<open>
  Two successful runs of the rounds with the same digest, the same genesis hash and the
  same seed origins produce the same origins, whatever their collaborators, prompts,
  clocks and agent ids are.
\<close>

lemma roundSteps_replay:
  assumes r1: "roundSteps env1 ctx1 rnd i1 agents1 acc1 s1 = (s1', Inr (agents1', acc1'))"
    and r2: "roundSteps env2 ctx2 rnd i2 agents2 acc2 s2 = (s2', Inr (agents2', acc2'))"
    and sha: "env_sha256 env2 = env_sha256 env1"
    and gen: "ctx_genesisHash ctx2 = ctx_genesisHash ctx1"
    and ag: "map agent_origin agents2 = map agent_origin agents1"
    and acc: "map origin acc2 = map origin acc1"
  shows "map agent_origin agents2' = map agent_origin agents1' \<and> map origin acc2' = map origin acc1'"
proof -
  from roundSteps_success[OF r1] obtain frs1 where
    f1: "acc1' = acc1 @ frs1" "length frs1 = length agents1" "length agents1' = length agents1"
    and a1: "\<forall>j<length agents1.
                  rotated env1 (ctx_genesisHash ctx1) rnd (agent_origin (agents1 ! j)) (frs1 ! j)
                \<and> agentId (frs1 ! j) = agent_id (agents1 ! j)
                \<and> agent_id (agents1' ! j) = agent_id (agents1 ! j)
                \<and> agent_origin (agents1' ! j) = origin (frs1 ! j)"
    by blast
  from roundSteps_success[OF r2] obtain frs2 where
    f2: "acc2' = acc2 @ frs2" "length frs2 = length agents2" "length agents2' = length agents2"
    and a2: "\<forall>j<length agents2.
                  rotated env2 (ctx_genesisHash ctx2) rnd (agent_origin (agents2 ! j)) (frs2 ! j)
                \<and> agentId (frs2 ! j) = agent_id (agents2 ! j)
                \<and> agent_id (agents2' ! j) = agent_id (agents2 ! j)
                \<and> agent_origin (agents2' ! j) = origin (frs2 ! j)"
    by blast
  have len: "length agents2 = length agents1"
    using ag by (rule map_eq_imp_length_eq)
  have same: "origin (frs2 ! j) = origin (frs1 ! j)" if j: "j < length agents1" for j
  proof -
    have o: "agent_origin (agents2 ! j) = agent_origin (agents1 ! j)"
      using ag j len by (metis nth_map)
    have "env_sha256 env1 (agent_origin (agents1 ! j) @ ctx_genesisHash ctx1 @ natToString rnd)
            = Inr (origin (frs1 ! j))"
      using a1 j by (simp add: rotated_def)
    moreover have "env_sha256 env2 (agent_origin (agents2 ! j) @ ctx_genesisHash ctx2 @ natToString rnd)
            = Inr (origin (frs2 ! j))"
      using a2 j len by (simp add: rotated_def)
    ultimately show ?thesis using sha gen o by simp
  qed
  have frs: "map origin frs2 = map origin frs1"
    by (rule nth_equalityI) (use f1 f2 len same in simp_all)
  have "map agent_origin agents2' = map agent_origin agents1'"
    by (rule nth_equalityI) (use f1 f2 len same a1 a2 in simp_all)
  moreover have "map origin acc2' = map origin acc1'"
    using f1 f2 acc frs by simp
  ultimately show ?thesis by simp
qed

lemma roundsLoop_replay:
  assumes "roundsLoop env1 ctx1 R r agents1 acc1 s1 = (s1', Inr (agents1', acc1'))"
    and "roundsLoop env2 ctx2 R r agents2 acc2 s2 = (s2', Inr (agents2', acc2'))"
    and sha: "env_sha256 env2 = env_sha256 env1"
    and gen: "ctx_genesisHash ctx2 = ctx_genesisHash ctx1"
    and "map agent_origin agents2 = map agent_origin agents1"
    and "map origin acc2 = map origin acc1"
  shows "map origin acc2' = map origin acc1'"
  using assms
proof (induction "R - r" arbitrary: r agents1 acc1 s1 agents2 acc2 s2)
  case 0
  then have ge: "\<not> r < R" by simp
  have "acc1' = acc1"
    using "0.prems"(1) ge by (subst (asm) roundsLoop.simps) simp
  moreover have "acc2' = acc2"
    using "0.prems"(2) ge by (subst (asm) roundsLoop.simps) simp
  ultimately show ?case using "0.prems"(6) by simp
next
  case (Suc d)
  then have lt: "r < R" and d: "d = R - Suc r" by auto
  let ?p1 = "setAgentStatus RELAY
                 (''Processing round '' @ natToString (r + 1) @ '' with ''
                  @ natToString (length agents1) @ '' agents...'') True
              (addLog env1 RELAY
                 (spinner @ ''Round '' @ natToString (r + 1) @ ''/'' @ natToString R @ ''...'') INFO s1)"
  let ?p2 = "setAgentStatus RELAY
                 (''Processing round '' @ natToString (r + 1) @ '' with ''
                  @ natToString (length agents2) @ '' agents...'') True
              (addLog env2 RELAY
                 (spinner @ ''Round '' @ natToString (r + 1) @ ''/'' @ natToString R @ ''...'') INFO s2)"
  from Suc.prems(1) lt obtain t1 b1 c1 where
    rs1: "roundSteps env1 ctx1 r 0 agents1 acc1 ?p1 = (t1, Inr (b1, c1))"
    and rl1: "roundsLoop env1 ctx1 R (Suc r) b1 c1 t1 = (s1', Inr (agents1', acc1'))"
    by (subst (asm) roundsLoop.simps) (auto simp: Let_def split: prod.splits sum.splits)
  from Suc.prems(2) lt obtain t2 b2 c2 where
    rs2: "roundSteps env2 ctx2 r 0 agents2 acc2 ?p2 = (t2, Inr (b2, c2))"
    and rl2: "roundsLoop env2 ctx2 R (Suc r) b2 c2 t2 = (s2', Inr (agents2', acc2'))"
    by (subst (asm) roundsLoop.simps) (auto simp: Let_def split: prod.splits sum.splits)
  from roundSteps_replay[OF rs1 rs2 sha gen Suc.prems(5) Suc.prems(6)]
  have "map agent_origin b2 = map agent_origin b1" "map origin c2 = map origin c1"
    by simp_all
  with Suc.hyps(1)[OF d rl1 rl2 sha gen] show ?case by simp
qed

text \<open>
  The text of every collected fragment is what the step runner returned for the agent
  with the fragment's (rotated) origin.
\<close>

lemma agentStep_output:
  assumes "agentStep env ctx rnd i agent = (agent', Inr f)"
  shows "runOrchestrationAgentStep (env_numberToString env) (env_ai env)
           \<lparr>agent_id = agentId f, agent_origin = origin f\<rparr>
           (ctx_promptText ctx) (ctx_editorContext ctx) (roundNo f) (ctx_editorLanguage ctx)
           (ctx_reasoningDepth ctx) = Inr (candidate f)"
proof -
  have upd: "agent\<lparr>agent_origin := x\<rparr> = \<lparr>agent_id = agent_id agent, agent_origin = x\<rparr>" for x
    by (cases agent) simp
  show ?thesis
    using assms by (auto simp: agentStep_def Let_def upd split: sum.splits)
qed

lemma roundSteps_output:
  assumes "roundSteps env ctx rnd i agents acc s = (s', Inr (agents', acc'))"
    and "\<forall>f\<in>set acc. runOrchestrationAgentStep (env_numberToString env) (env_ai env)
           \<lparr>agent_id = agentId f, agent_origin = origin f\<rparr>
           (ctx_promptText ctx) (ctx_editorContext ctx) (roundNo f) (ctx_editorLanguage ctx)
           (ctx_reasoningDepth ctx) = Inr (candidate f)"
  shows "\<forall>f\<in>set acc'. runOrchestrationAgentStep (env_numberToString env) (env_ai env)
           \<lparr>agent_id = agentId f, agent_origin = origin f\<rparr>
           (ctx_promptText ctx) (ctx_editorContext ctx) (roundNo f) (ctx_editorLanguage ctx)
           (ctx_reasoningDepth ctx) = Inr (candidate f)"
  using assms
proof (induction agents arbitrary: i acc s agents')
  case Nil
  then show ?case by simp
next
  case (Cons a agents)
  obtain a' res where st: "agentStep env ctx rnd i a = (a', res)" by (cases "agentStep env ctx rnd i a")
  show ?case
  proof (cases res)
    case (Inl e)
    with st Cons.prems show ?thesis by simp
  next
    case (Inr f)
    let ?s1 = "addLog env SENTINEL
              (''Fragment from '' @ agent_id a' @ '' (round '' @ natToString (rnd + 1) @ '')'') FRAGMENT s"
    from Cons.prems(1) st Inr obtain rest' where
      rec: "roundSteps env ctx rnd (Suc i) agents (acc @ [f]) ?s1 = (s', Inr (rest', acc'))"
      by (auto simp: Let_def split: prod.splits sum.splits)
    have "runOrchestrationAgentStep (env_numberToString env) (env_ai env)
           \<lparr>agent_id = agentId f, agent_origin = origin f\<rparr>
           (ctx_promptText ctx) (ctx_editorContext ctx) (roundNo f) (ctx_editorLanguage ctx)
           (ctx_reasoningDepth ctx) = Inr (candidate f)"
      using st Inr by (auto dest: agentStep_output)
    with Cons.prems(2) have "\<forall>f\<in>set (acc @ [f]). runOrchestrationAgentStep (env_numberToString env) (env_ai env)
           \<lparr>agent_id = agentId f, agent_origin = origin f\<rparr>
           (ctx_promptText ctx) (ctx_editorContext ctx) (roundNo f) (ctx_editorLanguage ctx)
           (ctx_reasoningDepth ctx) = Inr (candidate f)" by simp
    with Cons.IH[OF rec] show ?thesis by blast
  qed
qed

lemma roundsLoop_output:
  assumes "roundsLoop env ctx R r agents acc s = (s', Inr (agents', acc'))"
    and "\<forall>f\<in>set acc. runOrchestrationAgentStep (env_numberToString env) (env_ai env)
           \<lparr>agent_id = agentId f, agent_origin = origin f\<rparr>
           (ctx_promptText ctx) (ctx_editorContext ctx) (roundNo f) (ctx_editorLanguage ctx)
           (ctx_reasoningDepth ctx) = Inr (candidate f)"
  shows "\<forall>f\<in>set acc'. runOrchestrationAgentStep (env_numberToString env) (env_ai env)
           \<lparr>agent_id = agentId f, agent_origin = origin f\<rparr>
           (ctx_promptText ctx) (ctx_editorContext ctx) (roundNo f) (ctx_editorLanguage ctx)
           (ctx_reasoningDepth ctx) = Inr (candidate f)"
  using assms
proof (induction "R - r" arbitrary: r agents acc s)
  case 0
  then have "acc' = acc" by (subst (asm) roundsLoop.simps) simp
  with 0 show ?case by simp
next
  case (Suc d)
  then have lt: "r < R" and d: "d = R - Suc r" by auto
  let ?s2 = "setAgentStatus RELAY
                 (''Processing round '' @ natToString (r + 1) @ '' with ''
                  @ natToString (length agents) @ '' agents...'') True
              (addLog env RELAY
                 (spinner @ ''Round '' @ natToString (r + 1) @ ''/'' @ natToString R @ ''...'') INFO s)"
  from Suc.prems(1) lt obtain s3 agents1 acc1 where
    rs: "roundSteps env ctx r 0 agents acc ?s2 = (s3, Inr (agents1, acc1))"
    and rl: "roundsLoop env ctx R (Suc r) agents1 acc1 s3 = (s', Inr (agents', acc'))"
    by (subst (asm) roundsLoop.simps) (auto simp: Let_def split: prod.splits sum.splits)
  from roundSteps_output[OF rs Suc.prems(2)] Suc.hyps(1)[OF d rl] show ?case by blast
qed

text \<open>
  C4.  In a run whose rounds all succeed the accumulator is the concatenation of the
  rounds' fragment lists, one fragment per agent and round.  Write \<open>origin_k\<close> for the
  origin agent \<open>j\<close> holds when round \<open>k\<close> starts (\<^const>\<open>originBefore\<close>: its seed
  origin for \<open>k = 0\<close>).  Round \<open>k\<close> computes \<open>digest(origin_k + genesisHash + k)\<close>, with
  \<open>k\<close> printed in decimal, and stores it in the agent: it is the origin the agent holds
  when round \<open>k + 1\<close> starts.  It is also the origin of the fragment of round \<open>k\<close>, the
  origin the step runner of round \<open>k\<close> is called with, and the string the fragment's
  entropy is computed from.  The sequence of origins is determined by the digest, the
  genesis hash and the seed origins: a second run with the same three produces the same
  origins.
\<close>

theorem origin_rotation:
  assumes "snd (roundsLoop env ctx maxRounds 0 agents [] s) = Inr (agents', allCandidates)"
  shows "(\<exists>rounds. allCandidates = concat rounds \<and> length rounds = maxRounds
           \<and> (\<forall>k<maxRounds. length (rounds ! k) = length agents
                 \<and> (\<forall>j<length agents.
                        env_sha256 env (originBefore agents rounds k j @ ctx_genesisHash ctx @ natToString k)
                          = Inr (originBefore agents rounds (Suc k) j)
                      \<and> origin (rounds ! k ! j) = originBefore agents rounds (Suc k) j
                      \<and> entropy (rounds ! k ! j) = calculateEntropy (units (origin (rounds ! k ! j)))
                      \<and> roundNo (rounds ! k ! j) = k
                      \<and> agentId (rounds ! k ! j) = agent_id (agents ! j)
                      \<and> runOrchestrationAgentStep (env_numberToString env) (env_ai env)
                           \<lparr>agent_id = agent_id (agents ! j), agent_origin = origin (rounds ! k ! j)\<rparr>
                           (ctx_promptText ctx) (ctx_editorContext ctx) k (ctx_editorLanguage ctx)
                           (ctx_reasoningDepth ctx) = Inr (candidate (rounds ! k ! j)))))
       \<and> (\<forall>env2 ctx2 agents2 s2 agents2' allCandidates2.
             env_sha256 env2 = env_sha256 env \<and> ctx_genesisHash ctx2 = ctx_genesisHash ctx
             \<and> map agent_origin agents2 = map agent_origin agents
             \<and> snd (roundsLoop env2 ctx2 maxRounds 0 agents2 [] s2) = Inr (agents2', allCandidates2)
             \<longrightarrow> map origin allCandidates2 = map origin allCandidates)"
proof (intro conjI allI impI)
  obtain s' where run: "roundsLoop env ctx maxRounds 0 agents [] s = (s', Inr (agents', allCandidates))"
    using assms by (cases "roundsLoop env ctx maxRounds 0 agents [] s") simp
  from roundsLoop_success[OF run] obtain rounds where
    c: "allCandidates = concat rounds" and l: "length rounds = maxRounds"
    and a: "\<forall>k<maxRounds. length (rounds ! k) = length agents
                 \<and> (\<forall>j<length agents.
                        rotated env (ctx_genesisHash ctx) k (originBefore agents rounds k j)
                          (rounds ! k ! j)
                      \<and> agentId (rounds ! k ! j) = agent_id (agents ! j))"
    by auto
  have out: "\<forall>f\<in>set allCandidates. runOrchestrationAgentStep (env_numberToString env) (env_ai env)
           \<lparr>agent_id = agentId f, agent_origin = origin f\<rparr>
           (ctx_promptText ctx) (ctx_editorContext ctx) (roundNo f) (ctx_editorLanguage ctx)
           (ctx_reasoningDepth ctx) = Inr (candidate f)"
    using roundsLoop_output[OF run] by simp
  have "\<forall>k<maxRounds. length (rounds ! k) = length agents
                 \<and> (\<forall>j<length agents.
                        env_sha256 env (originBefore agents rounds k j @ ctx_genesisHash ctx @ natToString k)
                          = Inr (originBefore agents rounds (Suc k) j)
                      \<and> origin (rounds ! k ! j) = originBefore agents rounds (Suc k) j
                      \<and> entropy (rounds ! k ! j) = calculateEntropy (units (origin (rounds ! k ! j)))
                      \<and> roundNo (rounds ! k ! j) = k
                      \<and> agentId (rounds ! k ! j) = agent_id (agents ! j)
                      \<and> runOrchestrationAgentStep (env_numberToString env) (env_ai env)
                           \<lparr>agent_id = agent_id (agents ! j), agent_origin = origin (rounds ! k ! j)\<rparr>
                           (ctx_promptText ctx) (ctx_editorContext ctx) k (ctx_editorLanguage ctx)
                           (ctx_reasoningDepth ctx) = Inr (candidate (rounds ! k ! j)))"
  proof (intro allI impI conjI)
    fix k assume k: "k < maxRounds"
    show "length (rounds ! k) = length agents" using a k by simp
    fix j assume j: "j < length agents"
    let ?f = "rounds ! k ! j"
    from a k j have rot: "rotated env (ctx_genesisHash ctx) k (originBefore agents rounds k j) ?f"
      and aid: "agentId ?f = agent_id (agents ! j)" and len: "length (rounds ! k) = length agents"
      by simp_all
    have nxt: "originBefore agents rounds (Suc k) j = origin ?f"
      by (simp add: originBefore_def)
    show "env_sha256 env (originBefore agents rounds k j @ ctx_genesisHash ctx @ natToString k)
            = Inr (originBefore agents rounds (Suc k) j)"
      using rot nxt by (simp add: rotated_def)
    show "origin ?f = originBefore agents rounds (Suc k) j" using nxt by simp
    show "entropy ?f = calculateEntropy (units (origin ?f))" using rot by (simp add: rotated_def)
    show rn: "roundNo ?f = k" using rot by (simp add: rotated_def)
    show "agentId ?f = agent_id (agents ! j)" by (rule aid)
    have "rounds ! k \<in> set rounds" using k l by simp
    moreover have "?f \<in> set (rounds ! k)" using j len by simp
    ultimately have "?f \<in> set allCandidates" unfolding c by auto
    with out have "runOrchestrationAgentStep (env_numberToString env) (env_ai env)
           \<lparr>agent_id = agentId ?f, agent_origin = origin ?f\<rparr>
           (ctx_promptText ctx) (ctx_editorContext ctx) (roundNo ?f) (ctx_editorLanguage ctx)
           (ctx_reasoningDepth ctx) = Inr (candidate ?f)"
      by blast
    then show "runOrchestrationAgentStep (env_numberToString env) (env_ai env)
           \<lparr>agent_id = agent_id (agents ! j), agent_origin = origin ?f\<rparr>
           (ctx_promptText ctx) (ctx_editorContext ctx) k (ctx_editorLanguage ctx)
           (ctx_reasoningDepth ctx) = Inr (candidate ?f)"
      by (simp only: aid rn)
  qed
  with c l show "\<exists>rounds. allCandidates = concat rounds \<and> length rounds = maxRounds
           \<and> (\<forall>k<maxRounds. length (rounds ! k) = length agents
                 \<and> (\<forall>j<length agents.
                        env_sha256 env (originBefore agents rounds k j @ ctx_genesisHash ctx @ natToString k)
                          = Inr (originBefore agents rounds (Suc k) j)
                      \<and> origin (rounds ! k ! j) = originBefore agents rounds (Suc k) j
                      \<and> entropy (rounds ! k ! j) = calculateEntropy (units (origin (rounds ! k ! j)))
                      \<and> roundNo (rounds ! k ! j) = k
                      \<and> agentId (rounds ! k ! j) = agent_id (agents ! j)
                      \<and> runOrchestrationAgentStep (env_numberToString env) (env_ai env)
                           \<lparr>agent_id = agent_id (agents ! j), agent_origin = origin (rounds ! k ! j)\<rparr>
                           (ctx_promptText ctx) (ctx_editorContext ctx) k (ctx_editorLanguage ctx)
                           (ctx_reasoningDepth ctx) = Inr (candidate (rounds ! k ! j))))"
    by blast
next
  fix env2 ctx2 agents2 s2 agents2' allCandidates2
  assume h: "env_sha256 env2 = env_sha256 env \<and> ctx_genesisHash ctx2 = ctx_genesisHash ctx
             \<and> map agent_origin agents2 = map agent_origin agents
             \<and> snd (roundsLoop env2 ctx2 maxRounds 0 agents2 [] s2) = Inr (agents2', allCandidates2)"
  obtain s' where run: "roundsLoop env ctx maxRounds 0 agents [] s = (s', Inr (agents', allCandidates))"
    using assms by (cases "roundsLoop env ctx maxRounds 0 agents [] s") simp
  obtain s2' where run2: "roundsLoop env2 ctx2 maxRounds 0 agents2 [] s2 = (s2', Inr (agents2', allCandidates2))"
    using h by (cases "roundsLoop env2 ctx2 maxRounds 0 agents2 [] s2") simp
  show "map origin allCandidates2 = map origin allCandidates"
    by (rule roundsLoop_replay[OF run run2]) (use h in simp_all)
qed

lemmas run_eval = roundsLoop.simps agentStep_def runOrchestrationAgentStep_def transparentEnv_def
  exampleContext_def natToString_small Let_def

text \<open>
  One agent with seed origin \<open>seed\<close>, genesis hash \<open>G\<close>, two rounds, and a digest that
  returns its input: the origins of rounds 0 and 1 are \<open>seedG0\<close> and \<open>seedG0G1\<close>.  A
  second run with another agent id and another prompt has other fragments with the same
  origins.
\<close>

theorem origin_rotation_witness:
  "snd (roundsLoop transparentEnv exampleContext 2 0
          [\<lparr>agent_id = ''agent-0'', agent_origin = ''seed''\<rparr>] [] exampleState)
     = Inr ([\<lparr>agent_id = ''agent-0'', agent_origin = ''seedG0G1''\<rparr>],
            [\<lparr>agentId = ''agent-0'', origin = ''seedG0'', roundNo = 0,
              candidate = simulatedResponse \<lparr>agent_id = ''agent-0'', agent_origin = ''seedG0''\<rparr>,
              entropy = calculateEntropy (units ''seedG0''), timestamp = 0\<rparr>,
             \<lparr>agentId = ''agent-0'', origin = ''seedG0G1'', roundNo = 1,
              candidate = simulatedResponse \<lparr>agent_id = ''agent-0'', agent_origin = ''seedG0G1''\<rparr>,
              entropy = calculateEntropy (units ''seedG0G1''), timestamp = 0\<rparr>])
   \<and> env_sha256 transparentEnv (''seed'' @ ctx_genesisHash exampleContext @ natToString 0)
     = Inr ''seedG0''
   \<and> env_sha256 transparentEnv (''seedG0'' @ ctx_genesisHash exampleContext @ natToString 1)
     = Inr ''seedG0G1''
   \<and> snd (roundsLoop transparentEnv (exampleContext\<lparr>ctx_promptText := ''q''\<rparr>) 2 0
          [\<lparr>agent_id = ''agent-7'', agent_origin = ''seed''\<rparr>] [] exampleState)
     = Inr ([\<lparr>agent_id = ''agent-7'', agent_origin = ''seedG0G1''\<rparr>],
            [\<lparr>agentId = ''agent-7'', origin = ''seedG0'', roundNo = 0,
              candidate = simulatedResponse \<lparr>agent_id = ''agent-7'', agent_origin = ''seedG0''\<rparr>,
              entropy = calculateEntropy (units ''seedG0''), timestamp = 0\<rparr>,
             \<lparr>agentId = ''agent-7'', origin = ''seedG0G1'', roundNo = 1,
              candidate = simulatedResponse \<lparr>agent_id = ''agent-7'', agent_origin = ''seedG0G1''\<rparr>,
              entropy = calculateEntropy (units ''seedG0G1''), timestamp = 0\<rparr>])
   \<and> map origin
         [\<lparr>agentId = ''agent-7'', origin = ''seedG0'', roundNo = 0,
           candidate = simulatedResponse \<lparr>agent_id = ''agent-7'', agent_origin = ''seedG0''\<rparr>,
           entropy = calculateEntropy (units ''seedG0''), timestamp = 0\<rparr>,
          \<lparr>agentId = ''agent-7'', origin = ''seedG0G1'', roundNo = 1,
           candidate = simulatedResponse \<lparr>agent_id = ''agent-7'', agent_origin = ''seedG0G1''\<rparr>,
           entropy = calculateEntropy (units ''seedG0G1''), timestamp = 0\<rparr>]
     = [''seedG0'', ''seedG0G1'']"
proof -
  let ?a0 = "\<lparr>agent_id = ''agent-0'', agent_origin = ''seed''\<rparr>"
  let ?f0 = "\<lparr>agentId = ''agent-0'', origin = ''seedG0'', roundNo = 0,
              candidate = simulatedResponse \<lparr>agent_id = ''agent-0'', agent_origin = ''seedG0''\<rparr>,
              entropy = calculateEntropy (units ''seedG0''), timestamp = 0\<rparr>"
  let ?f1 = "\<lparr>agentId = ''agent-0'', origin = ''seedG0G1'', roundNo = 1,
              candidate = simulatedResponse \<lparr>agent_id = ''agent-0'', agent_origin = ''seedG0G1''\<rparr>,
              entropy = calculateEntropy (units ''seedG0G1''), timestamp = 0\<rparr>"
  let ?a7 = "\<lparr>agent_id = ''agent-7'', agent_origin = ''seed''\<rparr>"
  let ?g0 = "\<lparr>agentId = ''agent-7'', origin = ''seedG0'', roundNo = 0,
              candidate = simulatedResponse \<lparr>agent_id = ''agent-7'', agent_origin = ''seedG0''\<rparr>,
              entropy = calculateEntropy (units ''seedG0''), timestamp = 0\<rparr>"
  let ?g1 = "\<lparr>agentId = ''agent-7'', origin = ''seedG0G1'', roundNo = 1,
              candidate = simulatedResponse \<lparr>agent_id = ''agent-7'', agent_origin = ''seedG0G1''\<rparr>,
              entropy = calculateEntropy (units ''seedG0G1''), timestamp = 0\<rparr>"
  let ?ctx2 = "exampleContext\<lparr>ctx_promptText := ''q''\<rparr>"
  have ev: "snd (roundsLoop transparentEnv exampleContext 2 0 [?a0] [] exampleState)
     = Inr ([\<lparr>agent_id = ''agent-0'', agent_origin = ''seedG0G1''\<rparr>], [?f0, ?f1])"
    by (simp add: run_eval)
  have ev2: "snd (roundsLoop transparentEnv ?ctx2 2 0 [?a7] [] exampleState)
     = Inr ([\<lparr>agent_id = ''agent-7'', agent_origin = ''seedG0G1''\<rparr>], [?g0, ?g1])"
    by (simp add: run_eval)
  note t = origin_rotation [OF ev]
  from t obtain rounds where
    c: "[?f0, ?f1] = concat rounds" and l: "length rounds = 2"
    and a: "\<forall>k<2. length (rounds ! k) = length [?a0]
                 \<and> (\<forall>j<length [?a0].
                        env_sha256 transparentEnv
                          (originBefore [?a0] rounds k j @ ctx_genesisHash exampleContext @ natToString k)
                          = Inr (originBefore [?a0] rounds (Suc k) j)
                      \<and> origin (rounds ! k ! j) = originBefore [?a0] rounds (Suc k) j)"
    by blast
  from l obtain r0 r1 where rs: "rounds = [r0, r1]"
    by (cases rounds; cases "tl rounds"; cases "tl (tl rounds)") auto
  from a rs have "length r0 = 1" "length r1 = 1"
    by (auto dest: spec[of _ 0] spec[of _ 1])
  then obtain x y where xy: "r0 = [x]" "r1 = [y]"
    by (cases r0; cases r1) auto
  with c rs have x: "x = ?f0" and y: "y = ?f1" by simp_all
  from a have "env_sha256 transparentEnv
        (originBefore [?a0] rounds 0 0 @ ctx_genesisHash exampleContext @ natToString 0)
          = Inr (originBefore [?a0] rounds (Suc 0) 0)"
    by (auto dest: spec[of _ 0])
  then have d0: "env_sha256 transparentEnv (''seed'' @ ctx_genesisHash exampleContext @ natToString 0)
     = Inr ''seedG0''"
    using rs xy x y by (simp add: originBefore_def)
  from a have "env_sha256 transparentEnv
        (originBefore [?a0] rounds 1 0 @ ctx_genesisHash exampleContext @ natToString 1)
          = Inr (originBefore [?a0] rounds (Suc 1) 0)"
    by (auto dest: spec[of _ 1])
  then have d1: "env_sha256 transparentEnv (''seedG0'' @ ctx_genesisHash exampleContext @ natToString 1)
     = Inr ''seedG0G1''"
    using rs xy x y by (simp add: originBefore_def)
  have h2: "env_sha256 transparentEnv = env_sha256 transparentEnv
      \<and> ctx_genesisHash ?ctx2 = ctx_genesisHash exampleContext
      \<and> map agent_origin [?a7] = map agent_origin [?a0]
      \<and> snd (roundsLoop transparentEnv ?ctx2 2 0 [?a7] [] exampleState)
          = Inr ([\<lparr>agent_id = ''agent-7'', agent_origin = ''seedG0G1''\<rparr>], [?g0, ?g1])"
    using ev2 by simp
  from t h2 have "map origin [?g0, ?g1] = map origin [?f0, ?f1]"
    by blast
  then have rp: "map origin [?g0, ?g1] = [''seedG0'', ''seedG0G1'']"
    by simp
  from ev d0 d1 ev2 rp show ?thesis by (intro conjI)
qed

section \<open>From the scheduler to the assembler\<close>

text \<open>
  Every text the step runner returns starts with a comment marker, in the simulation and
  with a collaborator alike.  So the fragments a run collects are comment-marked, their
  grouping keys are neither property names inherited from \<open>Object.prototype\<close> nor array
  indices, and the assembly of a run's fragments returns a result.
\<close>

lemma runOrchestrationAgentStep_comment:
  assumes "runOrchestrationAgentStep nts ai agent p c rnd l d = Inr text"
  shows "take 3 text = ''// ''"
  using assms
  by (auto simp: runOrchestrationAgentStep_def simulatedResponse_def provenance_def Let_def
      split: option.splits sum.splits)

lemma roundsLoop_commentMarked:
  assumes "roundsLoop env ctx R 0 agents [] s = (s', Inr (agents', allCandidates))"
  shows "commentMarked allCandidates"
proof -
  have "take 3 (candidate f) = ''// ''" if "f \<in> set allCandidates" for f
    using roundsLoop_output[OF assms] that by (auto dest: runOrchestrationAgentStep_comment)
  then show ?thesis by (simp add: commentMarked_def list_all_iff)
qed

lemma scheduler_fragments_ordinary:
  assumes "roundsLoop env ctx R 0 agents [] s = (s', Inr (agents', allCandidates))"
  shows "ordinaryKeys allCandidates
         \<and> list_all (\<lambda>c. \<not> isArrayIndex (groupKey c)) allCandidates
         \<and> (\<exists>r. assembleFinalAnswer nts allCandidates g = Inr r)"
proof -
  have cm: "commentMarked allCandidates" using assms by (rule roundsLoop_commentMarked)
  then have ok: "ordinaryKeys allCandidates" by (rule commentMarked_ordinary)
  moreover have "list_all (\<lambda>c. \<not> isArrayIndex (groupKey c)) allCandidates"
    using cm by (rule commentMarked_ordinary)
  moreover have "\<exists>r. assembleFinalAnswer nts allCandidates g = Inr r"
    using ok by (rule assemble_returns)
  ultimately show ?thesis by simp
qed

section \<open>Failure of a run\<close>

text \<open>
  Logging and status updates write the agent panel only, and so do seeding, the rounds,
  and a \<open>try\<close> block that throws: the state after, with its agent panel overwritten, is the
  state before with its agent panel overwritten.
\<close>

lemma addLog_fields [simp]:
  "consensusResult (addLog env a m t s) = consensusResult s"
  "isGenerating (addLog env a m t s) = isGenerating s"
  "quantumConsensusCode (addLog env a m t s) = quantumConsensusCode s"
  by (simp_all add: addLog_def Let_def)

lemma setAgentStatus_fields [simp]:
  "consensusResult (setAgentStatus a c b s) = consensusResult s"
  "isGenerating (setAgentStatus a c b s) = isGenerating s"
  "quantumConsensusCode (setAgentStatus a c b s) = quantumConsensusCode s"
  by (simp_all add: setAgentStatus_def)

lemma addLog_frame:
  "(addLog env a m t s)\<lparr>agentStates := x\<rparr> = s\<lparr>agentStates := x\<rparr>"
  by (simp add: addLog_def Let_def)

lemma setAgentStatus_frame:
  "(setAgentStatus a c b s)\<lparr>agentStates := x\<rparr> = s\<lparr>agentStates := x\<rparr>"
  by (simp add: setAgentStatus_def)

lemma frame_fields:
  assumes "s'\<lparr>agentStates := x\<rparr> = s\<lparr>agentStates := x\<rparr>"
  shows "consensusResult s' = consensusResult s"
    and "quantumConsensusCode s' = quantumConsensusCode s"
    and "isGenerating s' = isGenerating s"
proof -
  have "consensusResult (s'\<lparr>agentStates := x\<rparr>) = consensusResult (s\<lparr>agentStates := x\<rparr>)"
    by (simp only: assms)
  then show "consensusResult s' = consensusResult s" by simp
  have "quantumConsensusCode (s'\<lparr>agentStates := x\<rparr>) = quantumConsensusCode (s\<lparr>agentStates := x\<rparr>)"
    by (simp only: assms)
  then show "quantumConsensusCode s' = quantumConsensusCode s" by simp
  have "isGenerating (s'\<lparr>agentStates := x\<rparr>) = isGenerating (s\<lparr>agentStates := x\<rparr>)"
    by (simp only: assms)
  then show "isGenerating s' = isGenerating s" by simp
qed

lemma seedAgents_step:
  assumes "i < n"
  shows "seedAgents env g n i agents s
           = seedAgents env g n (Suc i)
               (agents @ [\<lparr>agent_id = ''agent-'' @ natToString i,
                           agent_origin = fractalHashLatin1 (env_seedTime env i)
                                            (g @ ''agent-'' @ natToString i) 3\<rparr>])
               (addLog env NEXUS
                  (''agent-'' @ natToString i @ '': ''
                   @ take 12 (fractalHashLatin1 (env_seedTime env i) (g @ ''agent-'' @ natToString i) 3)
                   @ ''...'') ORIGIN s)"
  using assms by (subst seedAgents.simps) (simp add: Let_def generateFractalHash_units)

lemma seedAgents_frame:
  "(fst (seedAgents env g n i agents s))\<lparr>agentStates := x\<rparr> = s\<lparr>agentStates := x\<rparr>"
proof (induction "n - i" arbitrary: i agents s)
  case 0
  then show ?case by (subst seedAgents.simps) simp
next
  case (Suc d)
  then have lt: "i < n" and d: "d = n - Suc i" by auto
  show ?case
    unfolding seedAgents_step[OF lt] using Suc.hyps(1)[OF d] by (simp add: addLog_frame)
qed

text \<open>Seeding does not throw: the seeds are Latin-1 strings.\<close>

lemma seedAgents_returns:
  "\<exists>seeded. snd (seedAgents env g n i agents s) = Inr seeded"
proof (induction "n - i" arbitrary: i agents s)
  case 0
  then show ?case by (subst seedAgents.simps) simp
next
  case (Suc d)
  then have lt: "i < n" and d: "d = n - Suc i" by auto
  show ?case
    unfolding seedAgents_step[OF lt] using d by (rule Suc.hyps(1))
qed

lemma roundSteps_frame:
  "(fst (roundSteps env ctx rnd i agents acc s))\<lparr>agentStates := x\<rparr> = s\<lparr>agentStates := x\<rparr>"
proof (induction agents arbitrary: i acc s)
  case Nil
  show ?case by simp
next
  case (Cons a agents)
  show ?case
  proof (cases "agentStep env ctx rnd i a")
    case (Pair a' res)
    show ?thesis
    proof (cases res)
      case (Inl e)
      with Pair show ?thesis by simp
    next
      case (Inr f)
      let ?s' = "addLog env SENTINEL
              (''Fragment from '' @ agent_id a' @ '' (round '' @ natToString (rnd + 1) @ '')'') FRAGMENT s"
      have "(fst (roundSteps env ctx rnd (Suc i) agents (acc @ [f]) ?s'))\<lparr>agentStates := x\<rparr>
              = ?s'\<lparr>agentStates := x\<rparr>"
        by (rule Cons.IH)
      then have "(fst (roundSteps env ctx rnd (Suc i) agents (acc @ [f]) ?s'))\<lparr>agentStates := x\<rparr>
              = s\<lparr>agentStates := x\<rparr>"
        by (simp only: addLog_frame)
      then show ?thesis
        using Pair Inr by (auto simp: Let_def split: prod.splits sum.splits)
    qed
  qed
qed

lemma roundsLoop_frame:
  "(fst (roundsLoop env ctx R rnd agents acc s))\<lparr>agentStates := x\<rparr> = s\<lparr>agentStates := x\<rparr>"
proof (induction env ctx R rnd agents acc s rule: roundsLoop.induct)
  case (1 env ctx R rnd agents acc s)
  show ?case
  proof (cases "rnd < R")
    case False
    then show ?thesis by (subst roundsLoop.simps) simp
  next
    case True
    let ?s1 = "addLog env RELAY
                 (spinner @ ''Round '' @ natToString (rnd + 1) @ ''/'' @ natToString R @ ''...'') INFO s"
    let ?s2 = "setAgentStatus RELAY
                 (''Processing round '' @ natToString (rnd + 1) @ '' with ''
                  @ natToString (length agents) @ '' agents...'') True ?s1"
    have rs: "(fst (roundSteps env ctx rnd 0 agents acc ?s2))\<lparr>agentStates := x\<rparr> = s\<lparr>agentStates := x\<rparr>"
      by (simp only: roundSteps_frame setAgentStatus_frame addLog_frame)
    show ?thesis
    proof (cases "roundSteps env ctx rnd 0 agents acc ?s2")
      case (Pair s3 res)
      show ?thesis
      proof (cases res)
        case (Inl e)
        with Pair rs True show ?thesis by (subst roundsLoop.simps) (simp add: Let_def)
      next
        case (Inr p)
        obtain agents' acc' where p: "p = (agents', acc')" by (cases p)
        have "(fst (roundsLoop env ctx R (Suc rnd) agents' acc' s3))\<lparr>agentStates := x\<rparr>
                = s3\<lparr>agentStates := x\<rparr>"
          using "1.IH"[OF True refl refl, of s3 "Inr (agents', acc')" "(agents', acc')" agents' acc'] Pair Inr p
          by simp
        with Pair Inr p rs True show ?thesis by (subst roundsLoop.simps) (simp add: Let_def)
      qed
    qed
  qed
qed

lemma afterRounds_fail_frame:
  assumes "snd (afterRounds env g cs s) = Inl e"
  shows "(fst (afterRounds env g cs s))\<lparr>agentStates := x\<rparr> = s\<lparr>agentStates := x\<rparr>"
  using assms
  by (auto simp: afterRounds_def Let_def addLog_frame setAgentStatus_frame split: sum.splits)

lemma tryBody_fail_frame:
  assumes "snd (tryBody env p c l cfg s0) = Inl e"
  shows "(fst (tryBody env p c l cfg s0))\<lparr>agentStates := x\<rparr> = s0\<lparr>agentStates := x\<rparr>"
proof (cases "env_sha256 env (''GENESIS'' @ natToString (env_genesisTime env) @ c)")
  case (Inl e')
  then show ?thesis by (simp add: tryBody_def Let_def addLog_frame)
next
  case (Inr g)
  let ?s3 = "addLog env NEXUS ''Generating origin hashes for agents...'' ORIGIN
              (addLog env NEXUS (''Genesis: '' @ take 16 g @ ''...'') GENESIS
                (addLog env NEXUS ''Generating genesis hash from current code...'' GENESIS s0))"
  obtain agents s4 where sa: "seedAgents env g (settingsAgentCount cfg) 0 [] ?s3 = (s4, Inr agents)"
    using seedAgents_returns[of env g "settingsAgentCount cfg" 0 "[]" ?s3]
    by (cases "seedAgents env g (settingsAgentCount cfg) 0 [] ?s3") auto
  have s4: "s4\<lparr>agentStates := x\<rparr> = s0\<lparr>agentStates := x\<rparr>"
    using seedAgents_frame[of x env g "settingsAgentCount cfg" 0 "[]" ?s3] sa
    by (simp add: addLog_frame)
  let ?s7 = "setAgentStatus COGNITO
               (spinner @ ''Spawning '' @ natToString (settingsAgentCount cfg) @ '' fractal agents...'') True
               (addLog env NEXUS (''Event: '' @ env_eventId env @ '' logged'') EVENT
                 (addLog env NEXUS ''Creating event log entry...'' EVENT s4))"
  let ?ctx = "\<lparr>ctx_genesisHash = g, ctx_promptText = p, ctx_editorContext = c,
               ctx_editorLanguage = l, ctx_reasoningDepth = settingsReasoningDepth cfg\<rparr>"
  obtain s8 res where rl: "roundsLoop env ?ctx (settingsMaxRounds cfg) 0 agents [] ?s7 = (s8, res)"
    by (cases "roundsLoop env ?ctx (settingsMaxRounds cfg) 0 agents [] ?s7")
  have s8: "s8\<lparr>agentStates := x\<rparr> = s0\<lparr>agentStates := x\<rparr>"
    using roundsLoop_frame[of x env ?ctx "settingsMaxRounds cfg" 0 agents "[]" ?s7] rl s4
    by (simp add: addLog_frame setAgentStatus_frame)
  have tb: "tryBody env p c l cfg s0 =
      (case res of Inl e \<Rightarrow> (s8, Inl e)
       | Inr (agents', allCandidates) \<Rightarrow> afterRounds env g allCandidates s8)"
    using Inr sa rl by (simp add: tryBody_def Let_def)
  show ?thesis
  proof (cases res)
    case (Inl e')
    then show ?thesis using tb s8 by simp
  next
    case (Inr q)
    obtain agents' allCandidates where q: "q = (agents', allCandidates)" by (cases q)
    have "tryBody env p c l cfg s0 = afterRounds env g allCandidates s8"
      using tb Inr q by simp
    then show ?thesis
      using assms afterRounds_fail_frame[of env g allCandidates s8 e x] s8 by simp
  qed
qed

lemma startRun_fields [simp]:
  "consensusResult (startRun s) = None" "isGenerating (startRun s) = True"
  "quantumConsensusCode (startRun s) = quantumConsensusCode s"
  by (simp_all add: startRun_def)

lemma catchHandler_fields:
  "consensusResult (catchHandler env e s) = consensusResult s"
  "quantumConsensusCode (catchHandler env e s) = quantumConsensusCode s"
  "content (agentStates (catchHandler env e s) ECHO)
     = ''<span class='' @ dq @ ''text-error-color'' @ dq @ ''>Error: '' @ exnMessage env e @ ''</span>''"
  "agentLog (agentStates (catchHandler env e s) ECHO)
     = agentLog (agentStates s ECHO)
       @ [\<lparr>entryTimestamp = env_localeTime env ECHO (length (agentLog (agentStates s ECHO))),
            message = ''<span style='' @ dq @ ''color: #ff4444'' @ dq @ ''>Orchestrator Error: ''
                      @ exnMessage env e @ ''</span>'',
            entryType = INFO\<rparr>]"
  by (simp_all add: catchHandler_def Let_def addLog_def setAgentStatus_def)

lemma finalizer_fields:
  "isGenerating (finalizer s) = False"
  "consensusResult (finalizer s) = consensusResult s"
  "quantumConsensusCode (finalizer s) = quantumConsensusCode s"
  "agentLog (agentStates (finalizer s) a) = agentLog (agentStates s a)"
  "isActive (agentStates (finalizer s) a) = False"
  "content (agentStates (finalizer s) ECHO) = ''Awaiting assembly instructions...''"
  "content (agentStates (finalizer s) NEXUS) = ''Enhanced orchestration complete''"
  by (cases a; simp add: finalizer_def Let_def setAgentStatus_def INITIAL_AGENTS_STATE_def)+

text \<open>
  C7.  A run that starts (no other run in progress) always ends with the in-progress flag
  cleared, whether the \<open>try\<close> block completes or throws.  If it throws anywhere (in the
  genesis digest, the seeding, a round's digest or agent step, the assembly or the final
  digest), the error reaches the single \<open>catch\<close>: the run is the finalizer applied
  after the catch handler.  The handler appends the error entry to the log of the
  assembler-facing agent (ECHO) and sets ECHO's status to the error message; the
  finalizer, which runs next, puts the status of every agent, ECHO included, back to its
  idle text.  So when the run has ended the error entry is the last of ECHO's log, but
  ECHO's status is \<open>Awaiting assembly instructions...\<close> and not the error message: the
  status the specification asks for is shown at no moment after the run.  The result
  field is null and the consensus code is the one the state had before the run, so no
  fragment of an earlier round appears in a result.
\<close>

theorem orchestrator_failure:
  assumes "\<not> isGenerating state"
  shows "\<not> isGenerating (runEnhancedOrchestrator env promptOverride state)
       \<and> (\<forall>e. snd (runBody env promptOverride state) = Inl e \<longrightarrow>
              runEnhancedOrchestrator env promptOverride state
                = finalizer (catchHandler env e (fst (runBody env promptOverride state)))
            \<and> content (agentStates (catchHandler env e (fst (runBody env promptOverride state))) ECHO)
                = ''<span class='' @ dq @ ''text-error-color'' @ dq @ ''>Error: '' @ exnMessage env e @ ''</span>''
            \<and> message (last (agentLog (agentStates (runEnhancedOrchestrator env promptOverride state) ECHO)))
                = ''<span style='' @ dq @ ''color: #ff4444'' @ dq @ ''>Orchestrator Error: ''
                  @ exnMessage env e @ ''</span>''
            \<and> content (agentStates (runEnhancedOrchestrator env promptOverride state) ECHO)
                = ''Awaiting assembly instructions...''
            \<and> content (agentStates (runEnhancedOrchestrator env promptOverride state) ECHO)
                \<noteq> ''<span class='' @ dq @ ''text-error-color'' @ dq @ ''>Error: '' @ exnMessage env e @ ''</span>''
            \<and> consensusResult (runEnhancedOrchestrator env promptOverride state) = None
            \<and> quantumConsensusCode (runEnhancedOrchestrator env promptOverride state)
                = quantumConsensusCode state)"
proof (intro conjI allI impI)
  show "\<not> isGenerating (runEnhancedOrchestrator env promptOverride state)"
    using assms by (simp add: runEnhancedOrchestrator_def finalizer_fields split: prod.splits sum.splits)
next
  fix e
  assume fail: "snd (runBody env promptOverride state) = Inl e"
  let ?s = "fst (runBody env promptOverride state)"
  have rb: "runBody env promptOverride state = (?s, Inl e)"
    using fail by (metis prod.collapse)
  show run: "runEnhancedOrchestrator env promptOverride state = finalizer (catchHandler env e ?s)"
    using assms fail by (auto simp: runEnhancedOrchestrator_def split: prod.splits sum.splits)
  show "content (agentStates (catchHandler env e ?s) ECHO)
          = ''<span class='' @ dq @ ''text-error-color'' @ dq @ ''>Error: '' @ exnMessage env e @ ''</span>''"
    by (rule catchHandler_fields)
  show "message (last (agentLog (agentStates (runEnhancedOrchestrator env promptOverride state) ECHO)))
          = ''<span style='' @ dq @ ''color: #ff4444'' @ dq @ ''>Orchestrator Error: ''
            @ exnMessage env e @ ''</span>''"
    unfolding run by (simp only: finalizer_fields catchHandler_fields) simp
  show idle: "content (agentStates (runEnhancedOrchestrator env promptOverride state) ECHO)
          = ''Awaiting assembly instructions...''"
    unfolding run by (rule finalizer_fields)
  show "content (agentStates (runEnhancedOrchestrator env promptOverride state) ECHO)
          \<noteq> ''<span class='' @ dq @ ''text-error-color'' @ dq @ ''>Error: '' @ exnMessage env e @ ''</span>''"
    unfolding idle by simp
  have fr: "?s\<lparr>agentStates := x\<rparr> = (startRun state)\<lparr>agentStates := x\<rparr>" for x
    using fail unfolding runBody_def Let_def by (rule tryBody_fail_frame)
  have "consensusResult ?s = consensusResult (startRun state)"
    using fr by (rule frame_fields)
  then show "consensusResult (runEnhancedOrchestrator env promptOverride state) = None"
    unfolding run by (simp add: finalizer_fields catchHandler_fields)
  have "quantumConsensusCode ?s = quantumConsensusCode (startRun state)"
    using fr by (rule frame_fields)
  then show "quantumConsensusCode (runEnhancedOrchestrator env promptOverride state)
               = quantumConsensusCode state"
    unfolding run by (simp add: finalizer_fields catchHandler_fields)
qed

text \<open>
  The scenario of the specification: three agents, two rounds, and a collaborator that
  rejects the call of \<open>agent-2\<close> in the second round.  The catch handler sets the error
  status, and the run ends with the idle status.
\<close>

lemmas body_eval = runBody_def tryBody_def seedAgents.simps generateFractalHash_units
  roundsLoop.simps agentStep_def
  runOrchestrationAgentStep_def quotaEnv_def transparentEnv_def exampleState_def choosePrompt_def
  fullPrompt_def quotaPrompt_def nl_def natToString_small natToString_two Let_def

lemma quota_run_fails: "snd (runBody quotaEnv None exampleState) = Inl (Error ''quota exceeded'')"
  by (simp add: body_eval)

theorem orchestrator_failure_witness:
  "\<not> isGenerating exampleState
   \<and> snd (runBody quotaEnv None exampleState) = Inl (Error ''quota exceeded'')
   \<and> \<not> isGenerating (runEnhancedOrchestrator quotaEnv None exampleState)
   \<and> consensusResult (runEnhancedOrchestrator quotaEnv None exampleState) = None
   \<and> quantumConsensusCode (runEnhancedOrchestrator quotaEnv None exampleState) = Some ''// previous''
   \<and> message (last (agentLog (agentStates (runEnhancedOrchestrator quotaEnv None exampleState) ECHO)))
       = ''<span style='' @ dq @ ''color: #ff4444'' @ dq @ ''>Orchestrator Error: quota exceeded</span>''
   \<and> content (agentStates (catchHandler quotaEnv (Error ''quota exceeded'')
                               (fst (runBody quotaEnv None exampleState))) ECHO)
       = ''<span class='' @ dq @ ''text-error-color'' @ dq @ ''>Error: quota exceeded</span>''
   \<and> content (agentStates (runEnhancedOrchestrator quotaEnv None exampleState) ECHO)
       = ''Awaiting assembly instructions...''"
proof -
  have h: "\<not> isGenerating exampleState" by (simp add: exampleState_def)
  note t = orchestrator_failure [OF h, of quotaEnv None]
  have m: "exnMessage quotaEnv (Error ''quota exceeded'') = ''quota exceeded''"
    by (simp add: exnMessage_def)
  from t have a: "\<not> isGenerating (runEnhancedOrchestrator quotaEnv None exampleState)"
    by (rule conjunct1)
  from t quota_run_fails have
    b: "consensusResult (runEnhancedOrchestrator quotaEnv None exampleState) = None"
    and c: "message (last (agentLog (agentStates (runEnhancedOrchestrator quotaEnv None exampleState) ECHO)))
       = ''<span style='' @ dq @ ''color: #ff4444'' @ dq @ ''>Orchestrator Error: ''
                  @ exnMessage quotaEnv (Error ''quota exceeded'') @ ''</span>''"
    by blast+
  from t quota_run_fails have
    "quantumConsensusCode (runEnhancedOrchestrator quotaEnv None exampleState)
       = quantumConsensusCode exampleState"
    by blast
  then have d: "quantumConsensusCode (runEnhancedOrchestrator quotaEnv None exampleState)
       = Some ''// previous''"
    by (simp add: exampleState_def)
  from t quota_run_fails have
    e: "content (agentStates (catchHandler quotaEnv (Error ''quota exceeded'')
                               (fst (runBody quotaEnv None exampleState))) ECHO)
       = ''<span class='' @ dq @ ''text-error-color'' @ dq @ ''>Error: ''
         @ exnMessage quotaEnv (Error ''quota exceeded'') @ ''</span>''"
    and f: "content (agentStates (runEnhancedOrchestrator quotaEnv None exampleState) ECHO)
       = ''Awaiting assembly instructions...''"
    by blast+
  from h quota_run_fails a b c d e f show ?thesis unfolding m by simp
qed

text \<open>
  When that run throws, the three fragments of the first round and two of the second have
  been collected and logged; none of them reaches a result.
\<close>

lemma sentinel_entries:
  "map message (agentLog (agentStates (fst (runBody quotaEnv None exampleState)) SENTINEL)) =
     [''Fragment from agent-0 (round 1)'', ''Fragment from agent-1 (round 1)'',
      ''Fragment from agent-2 (round 1)'', ''Fragment from agent-0 (round 2)'',
      ''Fragment from agent-1 (round 2)'']"
  by (simp add: body_eval addLog_def setAgentStatus_def startRun_def INITIAL_AGENTS_STATE_def)

end
